theory Spec2Isabelle
  imports Main "HOL-Library.Sublist"
begin

section \<open>Strings of the program\<close>

text \<open>
  A JavaScript string is a sequence of UTF-16 code units. A code unit is modelled by its
  number, a string by the list of its code units; \<open>js\<close> turns an ASCII literal into such
  a string. Every theorem below that speaks of all texts therefore covers every string
  the program can hold (and lists with larger numbers as well).
\<close>

type_synonym ustring = "nat list"

definition js :: "string \<Rightarrow> ustring" where
  "js cs = map of_char cs"

text \<open>\<open>String.prototype.startsWith\<close>.\<close>

definition startsWith :: "ustring \<Rightarrow> ustring \<Rightarrow> bool" where
  "startsWith s p = (take (length p) s = p)"

section \<open>Regular expressions of the platform\<close>

text \<open>
  The program's checks and removals are regular-expression literals. They are
  transcribed construct by construct into the datatype \<open>regex\<close>, and run by a matcher
  that follows the backtracking semantics of ECMAScript (without the \<open>u\<close> flag):
  \<open>matches\<close> lists the states in which a pattern can end, in the order in which the
  backtracking matcher tries them, so the head of the list is the match it reports.
\<close>

datatype catom =
    CChar nat          \<comment> \<open>a single character\<close>
  | CRange nat nat     \<comment> \<open>\<open>a-f\<close>\<close>
  | CSpace             \<comment> \<open>\<open>\s\<close>\<close>
  | CNotSpace          \<comment> \<open>\<open>\S\<close>\<close>
  | CWord              \<comment> \<open>\<open>\w\<close>\<close>
  | CDigit             \<comment> \<open>\<open>\d\<close>\<close>

datatype regex =
    Eps                               \<comment> \<open>the empty pattern\<close>
  | Chr nat                           \<comment> \<open>a pattern character\<close>
  | Cls bool "catom list"             \<comment> \<open>\<open>[...]\<close>; \<open>True\<close> for a negated class \<open>[^...]\<close>\<close>
  | Seq regex regex
  | Alt regex regex                   \<comment> \<open>\<open>a|b\<close>\<close>
  | Rep nat "nat option" bool regex   \<comment> \<open>\<open>{min,max}\<close>, \<open>None\<close> for no maximum; \<open>True\<close> for greedy\<close>
  | Grp nat regex                     \<comment> \<open>capturing group number \<open>k\<close>\<close>
  | Bref nat                          \<comment> \<open>\<open>\k\<close>\<close>
  | WordB                             \<comment> \<open>\<open>\b\<close>\<close>
  | Bol                               \<comment> \<open>\<open>^\<close> (no \<open>m\<close> flag)\<close>
  | Eol                               \<comment> \<open>\<open>$\<close> (no \<open>m\<close> flag)\<close>

text \<open>White space and line terminators of ECMAScript, the members of \<open>\s\<close>.\<close>

definition is_space :: "nat \<Rightarrow> bool" where
  "is_space c = (c \<in> {9, 10, 11, 12, 13, 32, 160, 5760, 8232, 8233, 8239, 8287, 12288, 65279}
                 \<or> (8192 \<le> c \<and> c \<le> 8202))"

definition is_digit :: "nat \<Rightarrow> bool" where
  "is_digit c = (48 \<le> c \<and> c \<le> 57)"

definition is_word :: "nat \<Rightarrow> bool" where
  "is_word c = ((97 \<le> c \<and> c \<le> 122) \<or> (65 \<le> c \<and> c \<le> 90) \<or> is_digit c \<or> c = 95)"

text \<open>
  \<open>Canonicalize\<close> under the \<open>i\<close> flag maps a character to its upper case, except that a
  character from 128 on is never mapped below 128. Every comparison made by the
  patterns of this program has an ASCII character on one side, and on those comparisons
  the function below agrees with it: an ASCII letter is folded, any other character is
  kept (a character from 128 on stays at 128 or above either way).
\<close>

definition canon :: "bool \<Rightarrow> nat \<Rightarrow> nat" where
  "canon ic c = (if ic \<and> 97 \<le> c \<and> c \<le> 122 then c - 32 else c)"

fun atom_match :: "bool \<Rightarrow> catom \<Rightarrow> nat \<Rightarrow> bool" where
  "atom_match ic (CChar a) c = (canon ic a = canon ic c)"
| "atom_match ic (CRange lo hi) c = list_ex (\<lambda>a. canon ic a = canon ic c) [lo..<Suc hi]"
| "atom_match ic CSpace c = is_space c"
| "atom_match ic CNotSpace c = (\<not> is_space c)"
| "atom_match ic CWord c = is_word c"
| "atom_match ic CDigit c = is_digit c"

definition class_match :: "bool \<Rightarrow> bool \<Rightarrow> catom list \<Rightarrow> nat \<Rightarrow> bool" where
  "class_match ic neg as c = (list_ex (\<lambda>a. atom_match ic a c) as \<noteq> neg)"

text \<open>
  A matcher state: the end index and the captures (group number, start and end).
\<close>

type_synonym mstate = "nat \<times> (nat \<times> nat \<times> nat) list"

definition is_word_at :: "ustring \<Rightarrow> int \<Rightarrow> bool" where
  "is_word_at s e = (0 \<le> e \<and> e < int (length s) \<and> is_word (s ! nat e))"

fun rsize :: "regex \<Rightarrow> nat" where
  "rsize (Seq a b) = Suc (rsize a + rsize b)"
| "rsize (Alt a b) = Suc (rsize a + rsize b)"
| "rsize (Rep mn mx g r) = Suc (mn + rsize r)"
| "rsize (Grp k r) = Suc (rsize r)"
| "rsize _ = 0"

text \<open>
  In the repetition, an iteration that has reached the minimum and does not advance
  fails (the empty check of \<open>RepeatMatcher\<close>); since a matcher never moves backwards or
  past the end of the input (\<open>matches_bounds\<close> below), "does not advance" is written
  \<open>\<not> (i < j \<and> j \<le> length s)\<close>. None of the program's patterns has a group inside a
  repetition, so the reset of such groups at each iteration is not modelled.
\<close>

function matches :: "bool \<Rightarrow> ustring \<Rightarrow> regex \<Rightarrow> mstate \<Rightarrow> mstate list" where
  "matches ic s Eps st = [st]"
| "matches ic s (Chr a) (i, cs) =
     (if i < length s \<and> canon ic (s ! i) = canon ic a then [(Suc i, cs)] else [])"
| "matches ic s (Cls neg as) (i, cs) =
     (if i < length s \<and> class_match ic neg as (s ! i) then [(Suc i, cs)] else [])"
| "matches ic s (Seq a b) st = concat (map (matches ic s b) (matches ic s a st))"
| "matches ic s (Alt a b) st = matches ic s a st @ matches ic s b st"
| "matches ic s (Rep mn mx g r) (i, cs) =
     (if mx = Some 0 then [(i, cs)]
      else if 0 < mn then
        concat (map (matches ic s (Rep (mn - 1) (map_option (\<lambda>m. m - 1) mx) g r))
                    (matches ic s r (i, cs)))
      else
        let more = concat (map (\<lambda>(j, cs').
                     if i < j \<and> j \<le> length s
                     then matches ic s (Rep 0 (map_option (\<lambda>m. m - 1) mx) g r) (j, cs')
                     else [])
                   (matches ic s r (i, cs)))
        in if g then more @ [(i, cs)] else (i, cs) # more)"
| "matches ic s (Grp k r) (i, cs) =
     map (\<lambda>(j, cs'). (j, (k, i, j) # cs')) (matches ic s r (i, cs))"
| "matches ic s (Bref k) (i, cs) =
     (case map_of cs k of
        None \<Rightarrow> [(i, cs)]
      | Some (a, b) \<Rightarrow>
          (if i + (b - a) \<le> length s \<and>
              map (canon ic) (take (b - a) (drop i s)) = map (canon ic) (take (b - a) (drop a s))
           then [(i + (b - a), cs)] else []))"
| "matches ic s WordB (i, cs) =
     (if is_word_at s (int i - 1) \<noteq> is_word_at s (int i) then [(i, cs)] else [])"
| "matches ic s Bol (i, cs) = (if i = 0 then [(i, cs)] else [])"
| "matches ic s Eol (i, cs) = (if i = length s then [(i, cs)] else [])"
  by pat_completeness auto
termination
  by (relation "measures [\<lambda>(ic, s, r, st). rsize r, \<lambda>(ic, s, r, st). length s - fst st]") auto

text \<open>A pattern with its \<open>i\<close> flag.\<close>

record pattern =
  body :: regex
  ignoreCase :: bool

text \<open>
  One attempt of the matcher at index \<open>i\<close>: the end index of the match found there.
\<close>

definition match_at :: "pattern \<Rightarrow> ustring \<Rightarrow> nat \<Rightarrow> nat option" where
  "match_at p s i =
     (case matches (ignoreCase p) s (body p) (i, []) of [] \<Rightarrow> None | (e, cs) # _ \<Rightarrow> Some e)"

text \<open>
  \<open>RegExpBuiltinExec\<close> tries the indices from \<open>lastIndex\<close> up to the length of the input;
  a global replace calls it again from the end of each match (one further if the match
  was empty) until it fails. \<open>scan\<close> is the two loops together: the matches found from
  index \<open>i\<close> on, each with its start and end.
\<close>

function scan :: "pattern \<Rightarrow> ustring \<Rightarrow> nat \<Rightarrow> (nat \<times> nat) list" where
  "scan p s i =
     (if length s < i then []
      else case match_at p s i of
             None \<Rightarrow> scan p s (Suc i)
           | Some e \<Rightarrow> (i, e) # scan p s (if e \<le> i then Suc i else e))"
  by pat_completeness auto
termination
  by (relation "measure (\<lambda>(p, s, i). Suc (length s) - i)") auto

text \<open>\<open>RegExp.prototype.test\<close> of a pattern without the \<open>g\<close> flag.\<close>

fun exec_from :: "pattern \<Rightarrow> ustring \<Rightarrow> nat \<Rightarrow> nat \<Rightarrow> (nat \<times> nat) option" where
  "exec_from p s i 0 = None"
| "exec_from p s i (Suc n) =
     (case match_at p s i of None \<Rightarrow> exec_from p s (Suc i) n | Some e \<Rightarrow> Some (i, e))"

definition test :: "pattern \<Rightarrow> ustring \<Rightarrow> bool" where
  "test p s = (exec_from p s 0 (Suc (length s)) \<noteq> None)"

text \<open>
  \<open>String.prototype.replace\<close> with a global pattern and a replacement string without
  \<open>$\<close>: the pieces of the input between the matches, with the replacement in place of
  each match.
\<close>

fun build :: "ustring \<Rightarrow> ustring \<Rightarrow> (nat \<times> nat) list \<Rightarrow> nat \<Rightarrow> ustring" where
  "build s rep [] n = drop n s"
| "build s rep ((a, e) # ms) n =
     (if n \<le> a then take (a - n) (drop n s) @ rep @ build s rep ms e
      else build s rep ms n)"

definition replace :: "ustring \<Rightarrow> pattern \<Rightarrow> ustring \<Rightarrow> ustring" where
  "replace s p rep = build s rep (scan p s 0) 0"

text \<open>Shorthands for writing the patterns as the source writes them.\<close>

definition cu :: "char \<Rightarrow> nat" where
  "cu c = of_char c"

definition seqs :: "regex list \<Rightarrow> regex" where
  "seqs rs = foldr Seq rs Eps"

definition lit :: "string \<Rightarrow> regex" where
  "lit w = seqs (map (\<lambda>c. Chr (cu c)) w)"

definition star :: "regex \<Rightarrow> regex" where
  "star r = Rep 0 None True r"

definition lazy_star :: "regex \<Rightarrow> regex" where
  "lazy_star r = Rep 0 None False r"

definition plus :: "regex \<Rightarrow> regex" where
  "plus r = Rep 1 None True r"

definition opt :: "regex \<Rightarrow> regex" where
  "opt r = Rep 0 (Some 1) True r"

definition times :: "nat \<Rightarrow> regex \<Rightarrow> regex" where
  "times n r = Rep n (Some n) True r"

definition between :: "nat \<Rightarrow> nat \<Rightarrow> regex \<Rightarrow> regex" where
  "between m n r = Rep m (Some n) True r"

definition space :: regex where
  "space = Cls False [CSpace]"

definition digit :: regex where
  "digit = Cls False [CDigit]"

definition any_char :: regex where
  "any_char = Cls False [CSpace, CNotSpace]"

definition not_gt :: regex where
  "not_gt = Cls True [CChar (cu CHR ''>'')]"

definition dquote :: nat where
  "dquote = 34"

definition squote :: nat where
  "squote = 39"

section \<open>The helpers of \<open>SVG-import.js\<close>\<close>

subsection \<open>\<open>net.isIP\<close>\<close>

text \<open>
  \<open>net.isIP\<close> belongs to the platform. It is modelled by the two patterns with which
  Node 18 defines it (\<open>lib/internal/net.js\<close>): 4 for a dotted-decimal IPv4 literal, 6 for
  an IPv6 literal, 0 for any other string.
\<close>

definition v4Seg :: regex where
  "v4Seg = Alt (seqs [lit ''25'', Cls False [CRange (cu CHR ''0'') (cu CHR ''5'')]])
          (Alt (seqs [lit ''2'', Cls False [CRange (cu CHR ''0'') (cu CHR ''4'')], digit])
          (Alt (seqs [lit ''1'', digit, digit])
          (Alt (seqs [Cls False [CRange (cu CHR ''1'') (cu CHR ''9'')], digit])
               digit)))"

definition v4Str :: regex where
  "v4Str = seqs [times 3 (seqs [v4Seg, lit ''.'']), v4Seg]"

definition IPv4Reg :: pattern where
  "IPv4Reg = \<lparr> body = seqs [Bol, v4Str, Eol], ignoreCase = False \<rparr>"

definition v6Seg :: regex where
  "v6Seg = between 1 4 (Cls False [CRange (cu CHR ''0'') (cu CHR ''9''),
                                   CRange (cu CHR ''a'') (cu CHR ''f''),
                                   CRange (cu CHR ''A'') (cu CHR ''F'')])"

definition v6Head :: "nat \<Rightarrow> regex" where
  "v6Head n = times n (seqs [v6Seg, lit '':''])"

definition v6Tail :: "nat \<Rightarrow> nat \<Rightarrow> regex" where
  "v6Tail m n = between m n (seqs [lit '':'', v6Seg])"

definition IPv6Reg :: pattern where
  "IPv6Reg = \<lparr> body = seqs [Bol,
       Alt (seqs [v6Head 7, Alt v6Seg (lit '':'')])
      (Alt (seqs [v6Head 6, Alt v4Str (Alt (seqs [lit '':'', v6Seg]) (lit '':''))])
      (Alt (seqs [v6Head 5, Alt (seqs [lit '':'', v4Str]) (Alt (v6Tail 1 2) (lit '':''))])
      (Alt (seqs [v6Head 4, Alt (seqs [v6Tail 0 1, lit '':'', v4Str]) (Alt (v6Tail 1 3) (lit '':''))])
      (Alt (seqs [v6Head 3, Alt (seqs [v6Tail 0 2, lit '':'', v4Str]) (Alt (v6Tail 1 4) (lit '':''))])
      (Alt (seqs [v6Head 2, Alt (seqs [v6Tail 0 3, lit '':'', v4Str]) (Alt (v6Tail 1 5) (lit '':''))])
      (Alt (seqs [v6Head 1, Alt (seqs [v6Tail 0 4, lit '':'', v4Str]) (Alt (v6Tail 1 6) (lit '':''))])
           (seqs [lit '':'', Alt (seqs [v6Tail 0 5, lit '':'', v4Str]) (Alt (v6Tail 1 7) (lit '':''))]))))))),
       opt (seqs [lit ''%'', Rep 1 None True (Cls False [CRange (cu CHR ''0'') (cu CHR ''9''),
                                   CRange (cu CHR ''a'') (cu CHR ''z''),
                                   CRange (cu CHR ''A'') (cu CHR ''Z''),
                                   CChar (cu CHR ''-''), CChar (cu CHR ''.''), CChar (cu CHR '':'')])]),
       Eol],
     ignoreCase = False \<rparr>"

definition isIP :: "ustring \<Rightarrow> nat" where
  "isIP s = (if test IPv4Reg s then 4 else if test IPv6Reg s then 6 else 0)"

subsection \<open>\<open>isPrivateIp\<close>\<close>

text \<open>\<open>/^172\.(1[6-9]|2\d|3[0-1])\./\<close>\<close>

definition re_172 :: pattern where
  "re_172 = \<lparr> body = seqs [Bol, lit ''172.'',
       Grp 1 (Alt (seqs [lit ''1'', Cls False [CRange (cu CHR ''6'') (cu CHR ''9'')]])
             (Alt (seqs [lit ''2'', digit])
                  (seqs [lit ''3'', Cls False [CRange (cu CHR ''0'') (cu CHR ''1'')]]))),
       lit ''.''],
     ignoreCase = False \<rparr>"

definition isPrivateIp :: "ustring \<Rightarrow> bool" where
  "isPrivateIp ip =
     (if isIP ip = 0 then False
      else if startsWith ip (js ''10.'') \<or> startsWith ip (js ''127.'') \<or>
              startsWith ip (js ''169.254.'') \<or> startsWith ip (js ''192.168.'') \<or>
              test re_172 ip then True
      else if ip = js ''::1'' \<or> startsWith ip (js ''fe80'') \<or> ip = js ''::'' then True
      else False)"

subsection \<open>\<open>sanitizeSvg\<close>\<close>

text \<open>\<open>/<!\s*DOCTYPE/i\<close> and \<open>/<!ENTITY/i\<close>\<close>

definition re_doctype :: pattern where
  "re_doctype = \<lparr> body = seqs [lit ''<!'', star space, lit ''DOCTYPE''], ignoreCase = True \<rparr>"

definition re_entity :: pattern where
  "re_entity = \<lparr> body = lit ''<!ENTITY'', ignoreCase = True \<rparr>"

text \<open>\<open>/<script\b[^>]*>[\s\S]*?<\/script\s*>/gi\<close>\<close>

definition re_script :: pattern where
  "re_script = \<lparr> body = seqs [lit ''<script'', WordB, star not_gt, lit ''>'',
       lazy_star any_char, lit ''</script'', star space, lit ''>''],
     ignoreCase = True \<rparr>"

text \<open>\<^verbatim>\<open>/\son\w+\s*=\s*(?:"[^"]*"|'[^']*'|[^\s>]+)/gi\<close>\<close>

definition re_on :: pattern where
  "re_on = \<lparr> body = seqs [space, lit ''on'', plus (Cls False [CWord]), star space, lit ''='', star space,
       Alt (seqs [Chr dquote, star (Cls True [CChar dquote]), Chr dquote])
      (Alt (seqs [Chr squote, star (Cls True [CChar squote]), Chr squote])
           (plus (Cls True [CSpace, CChar (cu CHR ''>'')])))],
     ignoreCase = True \<rparr>"

text \<open>\<^verbatim>\<open>/(href|xlink:href)\s*=\s*(?:"javascript:[^"]*"|'javascript:[^']*'|javascript:[^\s>]+)/gi\<close>\<close>

definition re_jshref :: pattern where
  "re_jshref = \<lparr> body = seqs [Grp 1 (Alt (lit ''href'') (lit ''xlink:href'')), star space, lit ''='', star space,
       Alt (seqs [Chr dquote, lit ''javascript:'', star (Cls True [CChar dquote]), Chr dquote])
      (Alt (seqs [Chr squote, lit ''javascript:'', star (Cls True [CChar squote]), Chr squote])
           (seqs [lit ''javascript:'', plus (Cls True [CSpace, CChar (cu CHR ''>'')])]))],
     ignoreCase = True \<rparr>"

text \<open>\<open>/<(iframe|object|embed|foreignObject)\b[^>]*>[\s\S]*?<\/\1\s*>/gi\<close>\<close>

definition re_embed :: pattern where
  "re_embed = \<lparr> body = seqs [lit ''<'',
       Grp 1 (Alt (lit ''iframe'') (Alt (lit ''object'') (Alt (lit ''embed'') (lit ''foreignObject'')))),
       WordB, star not_gt, lit ''>'', lazy_star any_char, lit ''</'', Bref 1, star space, lit ''>''],
     ignoreCase = True \<rparr>"

text \<open>\<^verbatim>\<open>/(xlink:href|href)\s*=\s*(?:"https?:\/\/[^"]*"|'https?:\/\/[^']*')/gi\<close>\<close>

definition re_external :: pattern where
  "re_external = \<lparr> body = seqs [Grp 1 (Alt (lit ''xlink:href'') (lit ''href'')), star space, lit ''='', star space,
       Alt (seqs [Chr dquote, lit ''http'', opt (lit ''s''), lit ''://'', star (Cls True [CChar dquote]), Chr dquote])
           (seqs [Chr squote, lit ''http'', opt (lit ''s''), lit ''://'', star (Cls True [CChar squote]), Chr squote])],
     ignoreCase = True \<rparr>"

text \<open>
  The removal passes in the order of the source. A thrown \<open>Error\<close> is the left summand,
  with its message.
\<close>

definition removal_patterns :: "pattern list" where
  "removal_patterns = [re_script, re_on, re_jshref, re_embed, re_external]"

definition sanitizeSvg :: "ustring \<Rightarrow> ustring + ustring" where
  "sanitizeSvg svgText =
     (if test re_doctype svgText \<or> test re_entity svgText
      then Inl (js ''Forbidden SVG: contains DOCTYPE/ENTITY declarations'')
      else
        let svgText = replace svgText re_script [];
            svgText = replace svgText re_on [];
            svgText = replace svgText re_jshref [];
            svgText = replace svgText re_embed [];
            svgText = replace svgText re_external []
        in Inr svgText)"

subsection \<open>\<open>isValidUploadName\<close>\<close>

text \<open>\<open>/^[a-f0-9\-]{36}\.svg$/i\<close>\<close>

definition re_upload_name :: pattern where
  "re_upload_name = \<lparr> body = seqs [Bol,
       times 36 (Cls False [CRange (cu CHR ''a'') (cu CHR ''f''), CRange (cu CHR ''0'') (cu CHR ''9''),
                            CChar (cu CHR ''-'')]),
       lit ''.svg'', Eol],
     ignoreCase = True \<rparr>"

definition isValidUploadName :: "ustring \<Rightarrow> bool" where
  "isValidUploadName name = test re_upload_name name"

subsection \<open>\<open>isHttpUrl\<close> and \<open>hostnameToIPs\<close>\<close>

text \<open>
  What lies outside the program is a parameter of the model: the URL parser of the
  platform (\<open>None\<close> when \<open>new URL\<close> throws), the resolver (\<open>None\<close> when \<open>dns.lookup\<close>
  rejects, otherwise the addresses of the records), the network (\<open>fetch\<close>), the
  generator of identifiers and the upload directory.
\<close>

record url =
  protocol :: ustring
  hostname :: ustring

text \<open>A thrown error, with its \<open>name\<close> and with \<open>String(e)\<close>.\<close>

record js_error =
  err_name :: ustring
  err_string :: ustring

record upstream =
  ok :: bool
  up_status :: nat
  content_type :: "ustring option"
  text_body :: "js_error + ustring"    \<comment> \<open>\<open>await r.text()\<close>\<close>

record platform =
  parse_url :: "ustring \<Rightarrow> url option"
  dns_lookup :: "ustring \<Rightarrow> ustring list option"
  fetch :: "ustring \<Rightarrow> js_error + upstream"
  uuidv4 :: ustring
  UPLOAD_DIR :: ustring

definition isHttpUrl :: "platform \<Rightarrow> ustring \<Rightarrow> bool" where
  "isHttpUrl pf u =
     (case parse_url pf u of
        Some parsed \<Rightarrow> protocol parsed = js ''http:'' \<or> protocol parsed = js ''https:''
      | None \<Rightarrow> False)"

definition hostnameToIPs :: "platform \<Rightarrow> ustring \<Rightarrow> ustring list" where
  "hostnameToIPs pf h = (case dns_lookup pf h of Some records \<Rightarrow> records | None \<Rightarrow> [])"

section \<open>The three routes\<close>

text \<open>
  The upload directory is a finite map from paths to contents. A handler returns its
  response, the directory after the request, and the trace of what it did to the
  outside: resolutions, fetches and file-system calls, in order.
\<close>

type_synonym files = "ustring \<rightharpoonup> ustring"

datatype event =
    Resolve ustring
  | Fetch ustring
  | WriteFile ustring ustring
  | Rename ustring ustring
  | ExistsSync ustring
  | ReadFile ustring
  | SendFile ustring

datatype payload =
    Text ustring
  | Json "(ustring \<times> ustring) list"

record response =
  status :: nat
  headers :: "(ustring \<times> ustring) list"
  content :: payload

record outcome =
  reply :: response
  store :: files
  trace :: "event list"

definition send :: "nat \<Rightarrow> ustring \<Rightarrow> response" where
  "send code msg = \<lparr> status = code, headers = [], content = Text msg \<rparr>"

text \<open>\<open>String.prototype.trim\<close> removes white space and line terminators at both ends.\<close>

definition trim :: "ustring \<Rightarrow> ustring" where
  "trim s = rev (dropWhile is_space (rev (dropWhile is_space s)))"

text \<open>\<open>Buffer.byteLength(text, 'utf8')\<close>: a surrogate pair takes four bytes.\<close>

fun byteLength :: "ustring \<Rightarrow> nat" where
  "byteLength [] = 0"
| "byteLength (c # cs) =
     (if c < 128 then 1 + byteLength cs
      else if c < 2048 then 2 + byteLength cs
      else if 55296 \<le> c \<and> c < 56320 then
        (case cs of
           d # ds \<Rightarrow> if 56320 \<le> d \<and> d < 57344 then 4 + byteLength ds else 3 + byteLength cs
         | [] \<Rightarrow> 3)
      else 3 + byteLength cs)"

text \<open>The decimal digits of a number, for \<open>${r.status}\<close>.\<close>

fun digits :: "nat \<Rightarrow> nat \<Rightarrow> ustring" where
  "digits 0 n = []"
| "digits (Suc k) n = (if n < 10 then [48 + n] else digits k (n div 10) @ [48 + n mod 10])"

definition decimal :: "nat \<Rightarrow> ustring" where
  "decimal n = digits (Suc n) n"

text \<open>
  \<open>path.join(UPLOAD_DIR, name)\<close>. The program joins only names that end in \<open>.svg\<close> and
  hold no separator, for which the join is the directory, a separator and the name.
\<close>

definition path_join :: "ustring \<Rightarrow> ustring \<Rightarrow> ustring" where
  "path_join dir name = dir @ js ''/'' @ name"

text \<open>\<open>/<svg\b[^>]*>/i\<close>\<close>

definition re_svg :: pattern where
  "re_svg = \<lparr> body = seqs [lit ''<svg'', WordB, star not_gt, lit ''>''], ignoreCase = True \<rparr>"

text \<open>The \<open>catch\<close> of the import route.\<close>

definition import_failed :: "js_error \<Rightarrow> response" where
  "import_failed e =
     (if err_name e = js ''AbortError'' then send 504 (js ''Fetch timed out'')
      else send 500 (js ''Failed to fetch URL: '' @ err_string e))"

text \<open>
  \<open>POST /import.url\<close>. The argument \<open>raw\<close> is \<open>String(req.body?.url || '')\<close>. The test of
  the content type has an empty body in the source and is left out.
\<close>

definition importFromUrl :: "platform \<Rightarrow> files \<Rightarrow> ustring \<Rightarrow> outcome" where
  "importFromUrl pf fs raw =
     (let url = trim raw in
      if url = [] then \<lparr> reply = send 400 (js ''Missing url''), store = fs, trace = [] \<rparr>
      else if \<not> isHttpUrl pf url
        then \<lparr> reply = send 400 (js ''URL must be http or https''), store = fs, trace = [] \<rparr>
      else case parse_url pf url of
        None \<Rightarrow> \<lparr> reply = send 400 (js ''Invalid URL''), store = fs, trace = [] \<rparr>
      | Some parsed \<Rightarrow>
          let ips = hostnameToIPs pf (hostname parsed);
              t1 = [Resolve (hostname parsed)] in
          if length ips = 0
            then \<lparr> reply = send 400 (js ''Could not resolve hostname''), store = fs, trace = t1 \<rparr>
          else if list_ex isPrivateIp ips
            then \<lparr> reply = send 403 (js ''Fetching private IP addresses is not allowed''),
                   store = fs, trace = t1 \<rparr>
          else
            let t2 = t1 @ [Fetch url] in
            case fetch pf url of
              Inl e \<Rightarrow> \<lparr> reply = import_failed e, store = fs, trace = t2 \<rparr>
            | Inr r \<Rightarrow>
                if \<not> ok r
                  then \<lparr> reply = send 502 (js ''Upstream fetch failed: '' @ decimal (up_status r)),
                         store = fs, trace = t2 \<rparr>
                else case text_body r of
                  Inl e \<Rightarrow> \<lparr> reply = import_failed e, store = fs, trace = t2 \<rparr>
                | Inr text \<Rightarrow>
                    if 500 * 1024 < byteLength text
                      then \<lparr> reply = send 413 (js ''SVG too large''), store = fs, trace = t2 \<rparr>
                    else case sanitizeSvg text of
                      Inl msg \<Rightarrow> \<lparr> reply = send 400 (js ''SVG rejected: '' @ msg),
                                  store = fs, trace = t2 \<rparr>
                    | Inr clean \<Rightarrow>
                        if \<not> test re_svg clean
                          then \<lparr> reply = send 400 (js ''Content is not a valid SVG''),
                                 store = fs, trace = t2 \<rparr>
                        else
                          let filename = uuidv4 pf @ js ''.svg'';
                              filepath = path_join (UPLOAD_DIR pf) filename;
                              tmpPath = filepath @ js ''.tmp''
                          in \<lparr> reply = \<lparr> status = 201, headers = [],
                                         content = Json [(js ''message'', js ''Imported''),
                                                         (js ''filename'', filename)] \<rparr>,
                               store = (fs(tmpPath := None))(filepath \<mapsto> clean),
                               trace = t2 @ [WriteFile tmpPath clean, Rename tmpPath filepath] \<rparr>)"

text \<open>
  A read request: the route parameter and whatever headers the client sent.
\<close>

record request =
  param_name :: ustring
  req_headers :: "(ustring \<times> ustring) list"

text \<open>\<open>GET /uploads/:name\<close>\<close>

definition serveRaw :: "platform \<Rightarrow> files \<Rightarrow> request \<Rightarrow> outcome" where
  "serveRaw pf fs req =
     (let name = param_name req in
      if \<not> isValidUploadName name
        then \<lparr> reply = send 400 (js ''Invalid filename''), store = fs, trace = [] \<rparr>
      else
        let filePath = path_join (UPLOAD_DIR pf) name in
        case fs filePath of
          None \<Rightarrow> \<lparr> reply = send 404 (js ''Not found''), store = fs, trace = [ExistsSync filePath] \<rparr>
        | Some bytes \<Rightarrow>
            \<lparr> reply = \<lparr> status = 200,
                         headers = [(js ''Content-Type'', js ''image/svg+xml; charset=utf-8'')],
                         content = Text bytes \<rparr>,
              store = fs, trace = [ExistsSync filePath, SendFile filePath] \<rparr>)"

text \<open>\<open>/</g\<close> and \<open>/>/g\<close>, for the title of the preview.\<close>

definition re_lt :: pattern where
  "re_lt = \<lparr> body = lit ''<'', ignoreCase = False \<rparr>"

definition re_gt :: pattern where
  "re_gt = \<lparr> body = lit ''>'', ignoreCase = False \<rparr>"

definition preview_page :: "ustring \<Rightarrow> ustring \<Rightarrow> ustring" where
  \<open>preview_page safeTitle svg =
     js ''<!doctype html>'' @ [10] @
     js ''<html lang="en">'' @ [10] @
     js ''<head>'' @ [10] @
     js ''  <meta charset="utf-8">'' @ [10] @
     js ''  <title>View SVG - '' @ safeTitle @ js ''</title>'' @ [10] @
     js ''  <meta name="viewport" content="width=device-width,initial-scale=1">'' @ [10] @
     js ''</head>'' @ [10] @
     js ''<body>'' @ [10] @
     js ''  <h1>Viewing SVG: '' @ safeTitle @ js ''</h1>'' @ [10] @
     js ''  <div id="preview">'' @ svg @ js ''</div>'' @ [10] @
     js ''  <p><a href="/uploads/'' @ safeTitle @ js ''" download>Download SVG</a> '' @ [8212] @
       js '' <a href="/">Back</a></p>'' @ [10] @
     js ''</body>'' @ [10] @
     js ''</html>''\<close>

text \<open>\<open>GET /view/:name\<close>\<close>

definition servePreview :: "platform \<Rightarrow> files \<Rightarrow> request \<Rightarrow> outcome" where
  "servePreview pf fs req =
     (let name = param_name req in
      if \<not> isValidUploadName name
        then \<lparr> reply = send 400 (js ''Invalid filename''), store = fs, trace = [] \<rparr>
      else
        let filePath = path_join (UPLOAD_DIR pf) name in
        case fs filePath of
          None \<Rightarrow> \<lparr> reply = send 404 (js ''Not found''), store = fs, trace = [ExistsSync filePath] \<rparr>
        | Some svg \<Rightarrow>
            let safeTitle = replace (replace name re_lt (js ''&lt;'')) re_gt (js ''&gt;'') in
            \<lparr> reply = \<lparr> status = 200,
                         headers = [(js ''Content-Security-Policy'',
                                     js ''default-src 'none'; img-src 'self'; style-src 'unsafe-inline';''),
                                    (js ''X-Content-Type-Options'', js ''nosniff'')],
                         content = Text (preview_page safeTitle svg) \<rparr>,
              store = fs, trace = [ExistsSync filePath, ReadFile filePath] \<rparr>)"

section \<open>A concrete platform\<close>

text \<open>
  A platform on which the theorems are instantiated: one URL parses, its host resolves
  to the given records, and the network answers with the given result.
\<close>

definition example_url :: ustring where
  "example_url = js ''http://a.test/x.svg''"

definition example_platform :: "ustring list option \<Rightarrow> js_error + upstream \<Rightarrow> platform" where
  "example_platform records result =
     \<lparr> parse_url = (\<lambda>u. if u = js ''http://a.test/x.svg''
                         then Some \<lparr> protocol = js ''http:'', hostname = js ''a.test'' \<rparr> else None),
       dns_lookup = (\<lambda>h. if h = js ''a.test'' then records else None),
       fetch = (\<lambda>u. result),
       uuidv4 = js ''123e4567-e89b-42d3-a456-426614174000'',
       UPLOAD_DIR = js ''/srv/uploads'' \<rparr>"

definition timed_out :: "js_error + upstream" where
  "timed_out = Inl \<lparr> err_name = js ''AbortError'', err_string = js ''AbortError: This operation was aborted'' \<rparr>"

definition answers :: "ustring \<Rightarrow> js_error + upstream" where
  "answers text = Inr \<lparr> ok = True, up_status = 200, content_type = Some (js ''image/svg+xml''),
                         text_body = Inr text \<rparr>"

section \<open>The grammar of stored names, in words\<close>

text \<open>
  The grammar as the specification words it: a token of 36 characters, each a
  hexadecimal digit or a hyphen, followed by the extension \<open>.svg\<close>. Letters count in
  either case, as under the \<open>i\<close> flag of the pattern.
\<close>

definition is_hex_or_hyphen :: "nat \<Rightarrow> bool" where
  "is_hex_or_hyphen c = ((48 \<le> c \<and> c \<le> 57) \<or> (97 \<le> c \<and> c \<le> 102) \<or> (65 \<le> c \<and> c \<le> 70) \<or> c = 45)"

definition upload_name_grammar :: "ustring \<Rightarrow> bool" where
  "upload_name_grammar name =
     (length name = 40 \<and> list_all is_hex_or_hyphen (take 36 name) \<and>
      map (canon True) (drop 36 name) = js ''.SVG'')"

section \<open>Reading a content-security policy\<close>

text \<open>
  A policy is a list of directives separated by semicolons, each a name followed by
  its sources. A fetch directive that the policy does not list falls back on
  \<open>default-src\<close>.
\<close>

fun split_on :: "nat \<Rightarrow> ustring \<Rightarrow> ustring list" where
  "split_on d [] = [[]]"
| "split_on d (c # cs) =
     (if c = d then [] # split_on d cs
      else case split_on d cs of w # ws \<Rightarrow> (c # w) # ws | [] \<Rightarrow> [[c]])"

definition directives :: "ustring \<Rightarrow> (ustring \<times> ustring list) list" where
  "directives policy =
     concat (map (\<lambda>d. case filter (\<lambda>w. w \<noteq> []) (split_on 32 d) of
                          name # sources \<Rightarrow> [(name, sources)] | [] \<Rightarrow> [])
                 (split_on 59 policy))"

definition effective :: "ustring \<Rightarrow> ustring \<Rightarrow> ustring list option" where
  "effective policy name =
     (case map_of (directives policy) name of
        Some sources \<Rightarrow> Some sources
      | None \<Rightarrow> map_of (directives policy) (js ''default-src''))"

text \<open>The policy that the preview route sends, and the sources it names.\<close>

definition preview_policy :: ustring where
  "preview_policy = js ''default-src 'none'; img-src 'self'; style-src 'unsafe-inline';''"

definition quoted :: "string \<Rightarrow> ustring" where
  "quoted w = [squote] @ js w @ [squote]"

section \<open>Measures used in the proofs\<close>

text \<open>A lower bound on the number of characters a pattern consumes.\<close>

definition rep_count :: "nat \<Rightarrow> nat option \<Rightarrow> nat" where
  "rep_count mn mx = (case mx of None \<Rightarrow> mn | Some m \<Rightarrow> min mn m)"

fun min_len :: "regex \<Rightarrow> nat" where
  "min_len (Chr a) = 1"
| "min_len (Cls neg as) = 1"
| "min_len (Seq a b) = min_len a + min_len b"
| "min_len (Alt a b) = min (min_len a) (min_len b)"
| "min_len (Rep mn mx g r) = rep_count mn mx * min_len r"
| "min_len (Grp k r) = min_len r"
| "min_len _ = 0"

text \<open>
  Matches in the order of a scan that starts at \<open>n\<close> on an input of length \<open>L\<close>: each
  starts at or after the end of the one before.
\<close>

fun ordered :: "nat \<Rightarrow> nat \<Rightarrow> (nat \<times> nat) list \<Rightarrow> bool" where
  "ordered L n [] = True"
| "ordered L n ((a, e) # ms) = (n \<le> a \<and> a \<le> e \<and> e \<le> L \<and> ordered L e ms)"

text \<open>The number of characters inside the matches.\<close>

definition removed :: "(nat \<times> nat) list \<Rightarrow> nat" where
  "removed ms = sum_list (map (\<lambda>(a, e). e - a) ms)"

text \<open>The removal passes of \<open>sanitizeSvg\<close>, one after the other.\<close>

definition passes :: "pattern list \<Rightarrow> ustring \<Rightarrow> ustring" where
  "passes ps s = foldl (\<lambda>t p. replace t p []) s ps"

section \<open>Facts about the matcher\<close>

text \<open>
  The recursive equations of \<open>scan\<close> and of the repetition are unfolded by hand where a
  proof needs them.
\<close>

declare scan.simps [simp del]
lemmas matches_Rep = matches.simps(6)
declare matches.simps(6) [simp del]

lemma matches_bounds:
  "st' \<in> set (matches ic s r st) \<Longrightarrow> fst st \<le> length s \<Longrightarrow> fst st \<le> fst st' \<and> fst st' \<le> length s"
proof (induction ic s r st arbitrary: st' rule: matches.induct)
  case (4 ic s a b st)
  from "4.prems" obtain x where m: "x \<in> set (matches ic s a st)"
    and n: "st' \<in> set (matches ic s b x)"
    by auto
  from "4.IH"(1)[OF m "4.prems"(2)] have k: "fst st \<le> fst x \<and> fst x \<le> length s" .
  from "4.IH"(2)[OF m n] k have "fst x \<le> fst st' \<and> fst st' \<le> length s" by simp
  with k show ?case by simp
next
  case (6 ic s mn mx g r i cs)
  show ?case
  proof (cases "mx = Some 0")
    case True
    with "6.prems" show ?thesis by (subst (asm) matches_Rep) simp
  next
    case nz: False
    show ?thesis
    proof (cases "0 < mn")
      case True
      with nz "6.prems" obtain x where m: "x \<in> set (matches ic s r (i, cs))"
        and n: "st' \<in> set (matches ic s (Rep (mn - 1) (map_option (\<lambda>m. m - 1) mx) g r) x)"
        by (subst (asm) matches_Rep) auto
      from "6.IH"(1)[OF nz True m] "6.prems"(2) have k: "i \<le> fst x \<and> fst x \<le> length s" by simp
      from "6.IH"(2)[OF nz True m n] k have "fst x \<le> fst st' \<and> fst st' \<le> length s" by simp
      with k show ?thesis by simp
    next
      case False
      then have mn0: "mn = 0" by simp
      from "6.prems"(1) nz mn0
      consider (stop) "st' = (i, cs)"
        | (more) k ck where "(k, ck) \<in> set (matches ic s r (i, cs))" "i < k" "k \<le> length s"
            "st' \<in> set (matches ic s (Rep 0 (map_option (\<lambda>m. m - 1) mx) g r) (k, ck))"
        by (subst (asm) matches_Rep) (auto simp: Let_def split: if_splits)
      then show ?thesis
      proof cases
        case stop
        with "6.prems" show ?thesis by simp
      next
        case more
        from "6.IH"(4)[OF nz False more(1) refl _ more(4)] more(2,3)
        show ?thesis by simp
      qed
    qed
  qed
next
  case (1 ic s st) then show ?case by simp
next
  case (2 ic s a i cs) then show ?case by (auto split: if_splits)
next
  case (3 ic s neg as i cs) then show ?case by (auto split: if_splits)
next
  case (5 ic s a b st) then show ?case by (cases st') auto
next
  case (7 ic s k r i cs) then show ?case by (cases st') auto
next
  case (8 ic s k i cs) then show ?case by (auto split: if_splits option.splits)
next
  case (9 ic s i cs) then show ?case by (auto split: if_splits)
next
  case (10 ic s i cs) then show ?case by (auto split: if_splits)
next
  case (11 ic s i cs) then show ?case by (auto split: if_splits)
qed

lemma rep_count_step:
  "mx \<noteq> Some 0 \<Longrightarrow> 0 < mn \<Longrightarrow>
   rep_count mn mx = Suc (rep_count (mn - 1) (map_option (\<lambda>m. m - 1) mx))"
  by (cases mx) (auto simp: rep_count_def)

lemma matches_min_len:
  "st' \<in> set (matches ic s r st) \<Longrightarrow> fst st + min_len r \<le> fst st'"
proof (induction ic s r st arbitrary: st' rule: matches.induct)
  case (4 ic s a b st)
  from "4.prems" obtain x where m: "x \<in> set (matches ic s a st)"
    and n: "st' \<in> set (matches ic s b x)"
    by auto
  from "4.IH"(1)[OF m] "4.IH"(2)[OF m n] show ?case by simp
next
  case (6 ic s mn mx g r i cs)
  show ?case
  proof (cases "mx = Some 0")
    case True
    with "6.prems" show ?thesis by (subst (asm) matches_Rep) (simp add: rep_count_def)
  next
    case nz: False
    show ?thesis
    proof (cases "0 < mn")
      case True
      with nz "6.prems" obtain x where m: "x \<in> set (matches ic s r (i, cs))"
        and n: "st' \<in> set (matches ic s (Rep (mn - 1) (map_option (\<lambda>m. m - 1) mx) g r) x)"
        by (subst (asm) matches_Rep) auto
      from "6.IH"(1)[OF nz True m] "6.IH"(2)[OF nz True m n]
      show ?thesis by (simp add: rep_count_step[OF nz True])
    next
      case False
      then have mn0: "mn = 0" by simp
      from "6.prems"(1) nz mn0
      consider (stop) "st' = (i, cs)"
        | (more) k ck where "(k, ck) \<in> set (matches ic s r (i, cs))" "i < k" "k \<le> length s"
            "st' \<in> set (matches ic s (Rep 0 (map_option (\<lambda>m. m - 1) mx) g r) (k, ck))"
        by (subst (asm) matches_Rep) (auto simp: Let_def split: if_splits)
      then show ?thesis
      proof cases
        case stop
        with mn0 show ?thesis by (cases mx) (simp_all add: rep_count_def)
      next
        case more
        from "6.IH"(4)[OF nz False more(1) refl _ more(4)] more(2,3) mn0
        show ?thesis by (cases mx) (simp_all add: rep_count_def)
      qed
    qed
  qed
next
  case (1 ic s st) then show ?case by simp
next
  case (2 ic s a i cs) then show ?case by (auto split: if_splits)
next
  case (3 ic s neg as i cs) then show ?case by (auto split: if_splits)
next
  case (5 ic s a b st) then show ?case by (cases st') (fastforce)
next
  case (7 ic s k r i cs) then show ?case by (cases st') auto
next
  case (8 ic s k i cs) then show ?case by (auto split: if_splits option.splits)
next
  case (9 ic s i cs) then show ?case by (auto split: if_splits)
next
  case (10 ic s i cs) then show ?case by (auto split: if_splits)
next
  case (11 ic s i cs) then show ?case by (auto split: if_splits)
qed

lemma match_at_bounds:
  assumes "match_at p s i = Some e" "i \<le> length s"
  shows "i \<le> e" "e \<le> length s" "i + min_len (body p) \<le> e"
proof -
  from assms(1) obtain cs rest where m: "matches (ignoreCase p) s (body p) (i, []) = (e, cs) # rest"
    by (auto simp: match_at_def split: list.splits)
  then have mem: "(e, cs) \<in> set (matches (ignoreCase p) s (body p) (i, []))" by simp
  from matches_bounds[OF mem] assms(2) show "i \<le> e" "e \<le> length s" by simp_all
  from matches_min_len[OF mem] show "i + min_len (body p) \<le> e" by simp
qed

lemma scan_ordered: "i \<le> length s \<Longrightarrow> ordered (length s) i (scan p s i)"
proof (induction p s i rule: scan.induct)
  case (1 p s i)
  show ?case
  proof (cases "match_at p s i")
    case None
    show ?thesis
    proof (cases "Suc i \<le> length s")
      case True
      from "1.IH"(1)[OF _ None True] "1.prems" have "ordered (length s) (Suc i) (scan p s (Suc i))" by simp
      then have "ordered (length s) i (scan p s (Suc i))"
        by (cases "scan p s (Suc i)") auto
      with None "1.prems" show ?thesis by (subst scan.simps) simp
    next
      case False
      then have "scan p s (Suc i) = []" by (subst scan.simps) simp
      with None "1.prems" show ?thesis by (subst scan.simps) simp
    qed
  next
    case (Some e)
    from match_at_bounds(1,2)[OF Some "1.prems"] have b: "i \<le> e" "e \<le> length s" .
    let ?n = "if e \<le> i then Suc i else e"
    have "ordered (length s) e (scan p s ?n)"
    proof (cases "?n \<le> length s")
      case True
      from "1.IH"(2)[OF _ Some True] "1.prems" have o: "ordered (length s) ?n (scan p s ?n)" by simp
      have "e \<le> ?n" by simp
      with o show ?thesis by (cases "scan p s ?n") auto
    next
      case False
      then have "scan p s ?n = []" by (subst scan.simps) simp
      then show ?thesis by simp
    qed
    with Some b "1.prems" show ?thesis by (subst scan.simps) simp
  qed
qed

lemma scan_member:
  "(a, e) \<in> set (scan p s i) \<Longrightarrow> i \<le> a \<and> a \<le> length s \<and> match_at p s a = Some e"
proof (induction p s i rule: scan.induct)
  case (1 p s i)
  from "1.prems" have le: "i \<le> length s"
    by (subst (asm) scan.simps) (auto split: if_splits)
  show ?case
  proof (cases "match_at p s i")
    case None
    with "1.prems" le have "(a, e) \<in> set (scan p s (Suc i))"
      by (subst (asm) scan.simps) simp
    from "1.IH"(1)[OF _ None this] le show ?thesis by simp
  next
    case (Some e')
    with "1.prems" le consider "(a, e) = (i, e')"
      | "(a, e) \<in> set (scan p s (if e' \<le> i then Suc i else e'))"
      by (subst (asm) scan.simps) auto
    then show ?thesis
    proof cases
      case 1
      with Some le show ?thesis by simp
    next
      case 2
      from "1.IH"(2)[OF _ Some 2] le match_at_bounds(1)[OF Some le]
      show ?thesis by (auto split: if_splits)
    qed
  qed
qed

lemma scan_empty_iff:
  "scan p s i = [] \<longleftrightarrow> (\<forall>j. i \<le> j \<and> j \<le> length s \<longrightarrow> match_at p s j = None)"
proof (induction p s i rule: scan.induct)
  case (1 p s i)
  show ?case
  proof (cases "length s < i")
    case True
    then show ?thesis by (subst scan.simps) auto
  next
    case le: False
    show ?thesis
    proof (cases "match_at p s i")
      case None
      have "(\<forall>j. i \<le> j \<and> j \<le> length s \<longrightarrow> match_at p s j = None)
            \<longleftrightarrow> (\<forall>j. Suc i \<le> j \<and> j \<le> length s \<longrightarrow> match_at p s j = None)"
        using None by (metis Suc_leI le_neq_implies_less Suc_leD)
      with "1.IH"(1)[OF le None] None le show ?thesis by (subst scan.simps) simp
    next
      case (Some e)
      with le show ?thesis by (subst scan.simps) auto
    qed
  qed
qed

lemma exec_from_None_iff:
  "exec_from p s i n = None \<longleftrightarrow> (\<forall>j. i \<le> j \<and> j < i + n \<longrightarrow> match_at p s j = None)"
proof (induction n arbitrary: i)
  case 0
  show ?case by auto
next
  case (Suc n)
  show ?case
  proof (cases "match_at p s i")
    case None
    have "(\<forall>j. i \<le> j \<and> j < i + Suc n \<longrightarrow> match_at p s j = None)
          \<longleftrightarrow> (\<forall>j. Suc i \<le> j \<and> j < Suc i + n \<longrightarrow> match_at p s j = None)"
      using None by (metis Suc_leI le_neq_implies_less Suc_leD add_Suc_right add_Suc)
    with Suc[of "Suc i"] None show ?thesis by simp
  next
    case (Some e)
    then show ?thesis by auto
  qed
qed

lemma test_iff: "test p s \<longleftrightarrow> (\<exists>j\<le>length s. match_at p s j \<noteq> None)"
  unfolding test_def exec_from_None_iff by (auto simp: less_Suc_eq_le)

lemma test_scan: "test p s \<longleftrightarrow> scan p s 0 \<noteq> []"
  by (auto simp: test_iff scan_empty_iff)

lemma build_length:
  "ordered (length s) n ms \<Longrightarrow> n \<le> length s \<Longrightarrow>
   length (build s [] ms n) + removed ms = length s - n"
proof (induction ms arbitrary: n)
  case Nil
  then show ?case by (simp add: removed_def)
next
  case (Cons m ms)
  obtain a e where m: "m = (a, e)" by (cases m)
  from Cons.prems m have o: "n \<le> a" "a \<le> e" "e \<le> length s" "ordered (length s) e ms" by simp_all
  from Cons.IH[OF o(4) o(3)] have "length (build s [] ms e) + removed ms = length s - e" .
  moreover have "removed (m # ms) = (e - a) + removed ms" by (simp add: removed_def m)
  ultimately show ?case using o m by simp
qed

lemma drop_split: "n \<le> a \<Longrightarrow> drop n s = take (a - n) (drop n s) @ drop a s"
proof -
  assume "n \<le> a"
  then have "drop a s = drop (a - n) (drop n s)" by simp
  then show ?thesis by (metis append_take_drop_id)
qed

lemma build_subseq:
  "ordered (length s) n ms \<Longrightarrow> subseq (build s [] ms n) (drop n s)"
proof (induction ms arbitrary: n)
  case Nil
  then show ?case by simp
next
  case (Cons m ms)
  obtain a e where m: "m = (a, e)" by (cases m)
  from Cons.prems m have o: "n \<le> a" "a \<le> e" "e \<le> length s" "ordered (length s) e ms" by simp_all
  from Cons.IH[OF o(4)] have ih: "subseq (build s [] ms e) (drop e s)" .
  have "subseq (drop e s) (drop a s)"
    using drop_split[OF o(2), of s] by (metis list_emb_append2 subseq_order.order_refl)
  with ih have "subseq (build s [] ms e) (drop a s)" by (rule subseq_order.order_trans)
  then have "subseq (take (a - n) (drop n s) @ build s [] ms e) (take (a - n) (drop n s) @ drop a s)"
    by (simp add: list_emb_append_mono)
  with drop_split[OF o(1), of s] m o(1) show ?case by simp
qed

lemma replace_subseq: "subseq (replace s p []) s"
  using build_subseq[OF scan_ordered[of 0 s p]] by (simp add: replace_def)

lemma replace_length: "length (replace s p []) + removed (scan p s 0) = length s"
  using build_length[OF scan_ordered[of 0 s p]] by (simp add: replace_def)

lemma replace_length_le: "length (replace s p []) \<le> length s"
  using replace_length[of s p] by simp

lemma replace_no_match: "\<not> test p s \<Longrightarrow> replace s p rep = s"
  by (simp add: test_scan replace_def)

lemma removed_pos:
  assumes "0 < min_len (body p)" "scan p s 0 \<noteq> []"
  shows "0 < removed (scan p s 0)"
proof -
  from assms(2) obtain a e ms where sc: "scan p s 0 = (a, e) # ms" by (cases "scan p s 0") auto
  then have "(a, e) \<in> set (scan p s 0)" by simp
  from scan_member[OF this] have "a \<le> length s" "match_at p s a = Some e" by simp_all
  from match_at_bounds(3)[OF this(2,1)] assms(1) have "a < e" by simp
  with sc show ?thesis by (simp add: removed_def)
qed

lemma replace_shorter:
  "0 < min_len (body p) \<Longrightarrow> test p s \<Longrightarrow> length (replace s p []) < length s"
  using replace_length[of s p] removed_pos[of p s] by (simp add: test_scan)

lemma replace_eq_iff:
  "0 < min_len (body p) \<Longrightarrow> replace s p [] = s \<longleftrightarrow> \<not> test p s"
  using replace_shorter[of p s] replace_no_match[of p s "[]"] by auto

lemma scan_covers:
  "i \<le> j \<Longrightarrow> j \<le> length s \<Longrightarrow> match_at p s j \<noteq> None \<Longrightarrow>
   \<exists>(a, e) \<in> set (scan p s i). a \<le> j \<and> (j < e \<or> j = a)"
proof (induction p s i rule: scan.induct)
  case (1 p s i)
  from "1.prems" have le: "\<not> length s < i" by simp
  show ?case
  proof (cases "match_at p s i")
    case None
    with "1.prems" have "Suc i \<le> j" by (cases "i = j") auto
    from "1.IH"(1)[OF le None this "1.prems"(2,3)] None le
    show ?thesis by (subst scan.simps) simp
  next
    case (Some e)
    show ?thesis
    proof (cases "j < e \<or> j = i")
      case True
      with Some le "1.prems" show ?thesis by (subst scan.simps) auto
    next
      case False
      with "1.prems" have "(if e \<le> i then Suc i else e) \<le> j" by auto
      from "1.IH"(2)[OF le Some this "1.prems"(2,3)] Some le
      show ?thesis by (subst scan.simps) auto
    qed
  qed
qed

section \<open>Address admission\<close>

lemma import_admitted:
  assumes "trim raw \<noteq> []" "isHttpUrl pf (trim raw)" "parse_url pf (trim raw) = Some parsed"
    and "hostnameToIPs pf (hostname parsed) \<noteq> []"
    and "\<not> list_ex isPrivateIp (hostnameToIPs pf (hostname parsed))"
  shows "take 2 (trace (importFromUrl pf fs raw)) = [Resolve (hostname parsed), Fetch (trim raw)]"
  using assms
  by (simp add: importFromUrl_def Let_def split: sum.split)

lemma example_url_trim: "trim example_url = example_url"
  by (simp add: trim_def example_url_def js_def is_space_def)

lemma example_url_nonempty: "example_url \<noteq> []"
  by (simp add: example_url_def js_def)

lemma example_parse:
  "parse_url (example_platform records result) example_url
     = Some \<lparr> protocol = js ''http:'', hostname = js ''a.test'' \<rparr>"
  by (simp add: example_platform_def example_url_def)

lemma example_isHttpUrl: "isHttpUrl (example_platform records result) example_url"
  by (simp add: isHttpUrl_def example_parse)

lemma example_lookup:
  "dns_lookup (example_platform records result) (js ''a.test'') = records"
  by (simp add: example_platform_def)

text \<open>
  C7. When the resolution of the host fails, or gives no address, the import answers
  400 "Could not resolve hostname": the upload directory is unchanged and nothing is
  fetched.
\<close>

theorem unresolvable_host_rejected:
  assumes "trim raw \<noteq> []" "isHttpUrl pf (trim raw)" "parse_url pf (trim raw) = Some parsed"
    and "dns_lookup pf (hostname parsed) = None \<or> dns_lookup pf (hostname parsed) = Some []"
  shows "importFromUrl pf fs raw =
           \<lparr> reply = send 400 (js ''Could not resolve hostname''), store = fs,
             trace = [Resolve (hostname parsed)] \<rparr>"
  using assms by (auto simp: importFromUrl_def hostnameToIPs_def Let_def)

theorem unresolvable_host_witness:
  "importFromUrl (example_platform None (answers (js ''<svg></svg>''))) Map.empty example_url =
     \<lparr> reply = send 400 (js ''Could not resolve hostname''), store = Map.empty,
       trace = [Resolve (js ''a.test'')] \<rparr>"
proof -
  let ?pf = "example_platform None (answers (js ''<svg></svg>''))"
  have 1: "trim example_url \<noteq> []" by (simp add: example_url_trim example_url_nonempty)
  have 2: "isHttpUrl ?pf (trim example_url)" by (simp add: example_url_trim example_isHttpUrl)
  have 3: "parse_url ?pf (trim example_url) = Some \<lparr> protocol = js ''http:'', hostname = js ''a.test'' \<rparr>"
    by (simp add: example_url_trim example_parse)
  have 4: "dns_lookup ?pf (hostname \<lparr> protocol = js ''http:'', hostname = js ''a.test'' \<rparr>) = None
         \<or> dns_lookup ?pf (hostname \<lparr> protocol = js ''http:'', hostname = js ''a.test'' \<rparr>) = Some []"
    by (simp add: example_lookup)
  show ?thesis using unresolvable_host_rejected[OF 1 2 3 4, of Map.empty] by simp
qed

section \<open>Evaluating patterns on concrete texts\<close>

lemmas regex_eval =
  js_def cu_def seqs_def lit_def star_def lazy_star_def plus_def opt_def times_def between_def
  space_def digit_def any_char_def not_gt_def dquote_def squote_def match_at_def class_match_def
  canon_def is_space_def is_word_def is_digit_def is_word_at_def test_def matches_Rep scan.simps

lemmas isIP_eval = isIP_def IPv4Reg_def v4Str_def v4Seg_def IPv6Reg_def v6Seg_def v6Head_def v6Tail_def

lemma isIP_loopback: "isIP (js ''127.0.0.1'') = 4"
  by (simp add: regex_eval isIP_eval)

lemma isIP_public: "isIP (js ''93.184.216.34'') = 4"
  by (simp add: regex_eval isIP_eval)

lemma isIP_word: "isIP (js ''not-an-ip'') = 0"
  by (simp add: regex_eval isIP_eval)

lemma isIP_999: "isIP (js ''999.1.1.1'') = 0"
  by (simp add: regex_eval isIP_eval)

lemma isPrivateIp_loopback: "isPrivateIp (js ''127.0.0.1'')"
  by (simp add: isPrivateIp_def isIP_loopback) (simp add: startsWith_def js_def)

lemma isPrivateIp_public: "\<not> isPrivateIp (js ''93.184.216.34'')"
  by (simp add: isPrivateIp_def isIP_public) (simp add: startsWith_def regex_eval re_172_def)

text \<open>
  The loop over the resolved addresses: when \<open>isPrivateIp\<close> holds of one of them,
  whatever the others are, the import answers 403, the upload directory is unchanged
  and nothing is fetched.
\<close>

lemma private_address_forbidden:
  assumes "trim raw \<noteq> []" "isHttpUrl pf (trim raw)" "parse_url pf (trim raw) = Some parsed"
    and "dns_lookup pf (hostname parsed) = Some ips" "ip \<in> set ips" "isPrivateIp ip"
  shows "importFromUrl pf fs raw =
           \<lparr> reply = send 403 (js ''Fetching private IP addresses is not allowed''), store = fs,
             trace = [Resolve (hostname parsed)] \<rparr>"
proof -
  from assms(4,5) have "hostnameToIPs pf (hostname parsed) = ips" "ips \<noteq> []"
    by (auto simp: hostnameToIPs_def)
  moreover from assms(5,6) have "list_ex isPrivateIp ips" by (auto simp: list_ex_iff)
  ultimately show ?thesis using assms(1-3) by (simp add: importFromUrl_def Let_def)
qed

lemma private_address_example:
  "importFromUrl (example_platform (Some [js ''93.184.216.34'', js ''127.0.0.1''])
                    (answers (js ''<svg></svg>''))) Map.empty example_url =
     \<lparr> reply = send 403 (js ''Fetching private IP addresses is not allowed''), store = Map.empty,
       trace = [Resolve (js ''a.test'')] \<rparr>
   \<and> \<not> isPrivateIp (js ''93.184.216.34'')"
proof -
  let ?pf = "example_platform (Some [js ''93.184.216.34'', js ''127.0.0.1'']) (answers (js ''<svg></svg>''))"
  let ?u = "\<lparr> protocol = js ''http:'', hostname = js ''a.test'' \<rparr>"
  have 1: "trim example_url \<noteq> []" by (simp add: example_url_trim example_url_nonempty)
  have 2: "isHttpUrl ?pf (trim example_url)" by (simp add: example_url_trim example_isHttpUrl)
  have 3: "parse_url ?pf (trim example_url) = Some ?u"
    by (simp add: example_url_trim example_parse)
  have 4: "dns_lookup ?pf (hostname ?u) = Some [js ''93.184.216.34'', js ''127.0.0.1'']"
    by (simp add: example_lookup)
  have 5: "js ''127.0.0.1'' \<in> set [js ''93.184.216.34'', js ''127.0.0.1'']" by simp
  show ?thesis
    using private_address_forbidden[OF 1 2 3 4 5 isPrivateIp_loopback, of Map.empty] isPrivateIp_public
    by simp
qed

text \<open>
  C4, as the claim states it, fails: a resolved entry that is no address literal is
  judged not private, and a resolution made of such an entry lets the import go on to
  the fetch.
\<close>

theorem invalid_entry_counterexample:
  "isIP (js ''not-an-ip'') = 0 \<and> \<not> isPrivateIp (js ''not-an-ip'') \<and>
   trace (importFromUrl (example_platform (Some [js ''not-an-ip'']) timed_out) Map.empty example_url)
     = [Resolve (js ''a.test''), Fetch example_url]"
proof -
  have np: "\<not> isPrivateIp (js ''not-an-ip'')" by (simp add: isPrivateIp_def isIP_word)
  have "hostnameToIPs (example_platform (Some [js ''not-an-ip'']) timed_out) (js ''a.test'') = [js ''not-an-ip'']"
    by (simp add: hostnameToIPs_def example_lookup)
  then have "trace (importFromUrl (example_platform (Some [js ''not-an-ip'']) timed_out) Map.empty example_url)
     = [Resolve (js ''a.test''), Fetch example_url]"
    using np
    by (simp add: importFromUrl_def Let_def example_url_trim example_url_nonempty example_isHttpUrl
        example_parse) (simp add: example_platform_def timed_out_def)
  with np isIP_word show ?thesis by simp
qed

text \<open>
  C4, amended. \<open>isPrivateIp\<close> answers "not private" for every entry that is no address
  literal. Such an entry never makes the import answer 403 and is not taken out of the
  resolution: when the resolution is not empty and holds only such entries, the import
  goes on to the fetch.
\<close>

theorem invalid_entries_not_private:
  assumes "trim raw \<noteq> []" "isHttpUrl pf (trim raw)" "parse_url pf (trim raw) = Some parsed"
    and "dns_lookup pf (hostname parsed) = Some ips" "ips \<noteq> []" "\<forall>ip \<in> set ips. isIP ip = 0"
  shows "(\<forall>ip \<in> set ips. \<not> isPrivateIp ip) \<and>
         take 2 (trace (importFromUrl pf fs raw)) = [Resolve (hostname parsed), Fetch (trim raw)]"
proof -
  from assms(6) have np: "\<forall>ip \<in> set ips. \<not> isPrivateIp ip" by (simp add: isPrivateIp_def)
  from assms(4) have h: "hostnameToIPs pf (hostname parsed) = ips" by (simp add: hostnameToIPs_def)
  from np have "\<not> list_ex isPrivateIp ips" by (simp add: list_ex_iff)
  with import_admitted[OF assms(1-3), of fs] h assms(5) np show ?thesis by simp
qed

theorem invalid_entries_witness:
  "\<not> isPrivateIp (js ''999.1.1.1'') \<and>
   take 2 (trace (importFromUrl (example_platform (Some [js ''999.1.1.1'']) (answers (js ''<svg></svg>'')))
                    Map.empty example_url))
     = [Resolve (js ''a.test''), Fetch example_url]"
proof -
  let ?pf = "example_platform (Some [js ''999.1.1.1'']) (answers (js ''<svg></svg>''))"
  let ?u = "\<lparr> protocol = js ''http:'', hostname = js ''a.test'' \<rparr>"
  have 1: "trim example_url \<noteq> []" by (simp add: example_url_trim example_url_nonempty)
  have 2: "isHttpUrl ?pf (trim example_url)" by (simp add: example_url_trim example_isHttpUrl)
  have 3: "parse_url ?pf (trim example_url) = Some ?u"
    by (simp add: example_url_trim example_parse)
  have 4: "dns_lookup ?pf (hostname ?u) = Some [js ''999.1.1.1'']"
    by (simp add: example_lookup)
  have 5: "[js ''999.1.1.1''] \<noteq> []" by simp
  have 6: "\<forall>ip \<in> set [js ''999.1.1.1'']. isIP ip = 0" by (simp add: isIP_999)
  show ?thesis
    using invalid_entries_not_private[OF 1 2 3 4 5 6, of Map.empty]
    by (simp add: example_url_trim)
qed

section \<open>The sanitizer only deletes\<close>

lemma sanitizeSvg_passes:
  "sanitizeSvg s =
     (if test re_doctype s \<or> test re_entity s
      then Inl (js ''Forbidden SVG: contains DOCTYPE/ENTITY declarations'')
      else Inr (passes removal_patterns s))"
  by (simp add: sanitizeSvg_def passes_def removal_patterns_def Let_def)

lemma passes_subseq: "subseq (passes ps s) s"
proof (induction ps arbitrary: s)
  case Nil
  show ?case by (simp add: passes_def)
next
  case (Cons p ps)
  have "subseq (passes ps (replace s p [])) (replace s p [])" by (rule Cons.IH)
  then have "subseq (passes ps (replace s p [])) s"
    using replace_subseq by (rule subseq_order.order_trans)
  then show ?case by (simp add: passes_def)
qed

lemma passes_length_le: "length (passes ps s) \<le> length s"
  using passes_subseq[of ps s] by (rule list_emb_length)

lemma passes_unchanged_iff:
  assumes "\<forall>p \<in> set ps. 0 < min_len (body p)"
  shows "passes ps s = s \<longleftrightarrow> (\<forall>p \<in> set ps. \<not> test p s)"
  using assms
proof (induction ps)
  case Nil
  show ?case by (simp add: passes_def)
next
  case (Cons p ps)
  have step: "passes (p # ps) s = passes ps (replace s p [])" by (simp add: passes_def)
  from Cons.prems have pos: "0 < min_len (body p)" and rest: "\<forall>q \<in> set ps. 0 < min_len (body q)"
    by simp_all
  show ?case
  proof
    assume eq: "passes (p # ps) s = s"
    have "length s = length (passes ps (replace s p []))" using eq step by simp
    also have "\<dots> \<le> length (replace s p [])" by (rule passes_length_le)
    finally have "\<not> length (replace s p []) < length s" by simp
    with replace_shorter[OF pos] have nt: "\<not> test p s" by blast
    then have "replace s p [] = s" by (rule replace_no_match)
    with eq step have "passes ps s = s" by simp
    with Cons.IH[OF rest] nt show "\<forall>q \<in> set (p # ps). \<not> test q s" by simp
  next
    assume no: "\<forall>q \<in> set (p # ps). \<not> test q s"
    then have "replace s p [] = s" by (simp add: replace_no_match)
    moreover from no Cons.IH[OF rest] have "passes ps s = s" by simp
    ultimately show "passes (p # ps) s = s" using step by simp
  qed
qed

lemmas min_len_eval = seqs_def lit_def star_def lazy_star_def plus_def opt_def times_def
  space_def any_char_def not_gt_def rep_count_def

lemma removal_patterns_consume: "\<forall>p \<in> set removal_patterns. 0 < min_len (body p)"
  by (simp add: removal_patterns_def re_script_def re_on_def re_jshref_def re_embed_def
      re_external_def min_len_eval)

text \<open>
  C10. When \<open>sanitizeSvg\<close> does not reject, the cleaned text is the input with some
  characters deleted and none added or changed: it is a subsequence of the input, it is
  no longer than the input, and it is the input itself exactly when none of the removal
  patterns matches the input.
\<close>

theorem sanitize_only_deletes:
  assumes "sanitizeSvg s = Inr t"
  shows "subseq t s \<and> length t \<le> length s \<and>
         (t = s \<longleftrightarrow> (\<forall>p \<in> set removal_patterns. \<not> test p s))"
proof -
  from assms have t: "t = passes removal_patterns s"
    by (simp add: sanitizeSvg_passes split: if_splits)
  show ?thesis
    unfolding t
    using passes_subseq passes_length_le passes_unchanged_iff[OF removal_patterns_consume]
    by blast
qed

lemma sanitize_onload:
  "sanitizeSvg (js ''<svg onload=a></svg>'') = Inr (js ''<svg></svg>'')"
proof -
  let ?x = "js ''<svg onload=a></svg>''" and ?y = "js ''<svg></svg>''"
  have d: "\<not> test re_doctype ?x" by (simp add: regex_eval re_doctype_def)
  have e: "\<not> test re_entity ?x" by (simp add: regex_eval re_entity_def)
  have 1: "replace ?x re_script [] = ?x" by (simp add: regex_eval replace_def re_script_def)
  have 2: "replace ?x re_on [] = ?y" by (simp add: regex_eval replace_def re_on_def)
  have 3: "replace ?y re_jshref [] = ?y" by (simp add: regex_eval replace_def re_jshref_def)
  have 4: "replace ?y re_embed [] = ?y" by (simp add: regex_eval replace_def re_embed_def)
  have 5: "replace ?y re_external [] = ?y" by (simp add: regex_eval replace_def re_external_def)
  show ?thesis by (simp add: sanitizeSvg_def Let_def d e 1 2 3 4 5)
qed

theorem sanitize_only_deletes_witness:
  "sanitizeSvg (js ''<svg onload=a></svg>'') = Inr (js ''<svg></svg>'') \<and>
   subseq (js ''<svg></svg>'') (js ''<svg onload=a></svg>'') \<and>
   length (js ''<svg></svg>'') \<le> length (js ''<svg onload=a></svg>'') \<and>
   (js ''<svg></svg>'' = js ''<svg onload=a></svg>''
      \<longleftrightarrow> (\<forall>p \<in> set removal_patterns. \<not> test p (js ''<svg onload=a></svg>'')))"
  using sanitize_only_deletes[OF sanitize_onload] sanitize_onload by simp

section \<open>Literals, classes and repetitions\<close>

lemma seqs_Nil: "matches ic s (seqs []) st = [st]"
  by (simp add: seqs_def)

lemma seqs_Cons: "matches ic s (seqs (r # rs)) st = concat (map (matches ic s (seqs rs)) (matches ic s r st))"
  by (simp add: seqs_def)

lemma lit_Nil: "matches ic s (lit []) st = [st]"
  by (simp add: lit_def seqs_def)

lemma lit_Cons:
  "matches ic s (lit (c # w)) (i, cs) =
     (if i < length s \<and> canon ic (s ! i) = canon ic (cu c) then matches ic s (lit w) (Suc i, cs) else [])"
  by (auto simp: lit_def seqs_def)

text \<open>A literal matches where the text, folded, is the literal, folded.\<close>

lemma lit_matches:
  "i \<le> length s \<Longrightarrow>
   matches ic s (lit w) (i, cs) =
     (if map (canon ic) (take (length w) (drop i s)) = map (\<lambda>c. canon ic (cu c)) w
      then [(i + length w, cs)] else [])"
proof (induction w arbitrary: i)
  case Nil
  show ?case by (simp add: lit_Nil)
next
  case (Cons c w)
  show ?case
  proof (cases "i < length s")
    case True
    then have d: "drop i s = s ! i # drop (Suc i) s" by (simp add: Cons_nth_drop_Suc)
    from True have "Suc i \<le> length s" by simp
    from Cons.IH[OF this] True d show ?thesis by (simp add: lit_Cons)
  next
    case False
    with Cons.prems show ?thesis by (simp add: lit_Cons)
  qed
qed

text \<open>A repetition of a class can stop after any run of members of the class.\<close>

lemma star_class_reaches:
  "i + n \<le> length s \<Longrightarrow> \<forall>k<n. class_match ic neg as (s ! (i + k)) \<Longrightarrow>
   (i + n, cs) \<in> set (matches ic s (Rep 0 None g (Cls neg as)) (i, cs))"
proof (induction n arbitrary: i)
  case 0
  show ?case by (subst matches_Rep) (simp add: Let_def)
next
  case (Suc n)
  from Suc.prems have i: "i < length s" and c: "class_match ic neg as (s ! i)" by auto
  from Suc.prems have "Suc i + n \<le> length s" "\<forall>k<n. class_match ic neg as (s ! (Suc i + k))"
    by auto
  from Suc.IH[OF this] have "(i + Suc n, cs) \<in> set (matches ic s (Rep 0 None g (Cls neg as)) (Suc i, cs))"
    by simp
  with i c show ?case by (subst matches_Rep) (cases g; simp add: Let_def)
qed

text \<open>An exact count of a class matches exactly that many members.\<close>

lemma times_class:
  "i \<le> length s \<Longrightarrow>
   matches ic s (Rep n (Some n) g (Cls neg as)) (i, cs) =
     (if i + n \<le> length s \<and> (\<forall>k<n. class_match ic neg as (s ! (i + k))) then [(i + n, cs)] else [])"
proof (induction n arbitrary: i)
  case 0
  then show ?case by (subst matches_Rep) simp
next
  case (Suc n)
  show ?case
  proof (cases "i < length s \<and> class_match ic neg as (s ! i)")
    case True
    then have "Suc i \<le> length s" by simp
    from Suc.IH[OF this]
    have ih: "matches ic s (Rep n (Some n) g (Cls neg as)) (Suc i, cs) =
       (if Suc i + n \<le> length s \<and> (\<forall>k<n. class_match ic neg as (s ! (Suc i + k)))
        then [(Suc i + n, cs)] else [])" .
    have "(\<forall>k<Suc n. class_match ic neg as (s ! (i + k)))
          \<longleftrightarrow> (\<forall>k<n. class_match ic neg as (s ! (Suc i + k)))"
      using True by (auto simp: less_Suc_eq_0_disj)
    with ih True show ?thesis by (subst matches_Rep) simp
  next
    case False
    then have "\<not> (i + Suc n \<le> length s \<and> (\<forall>k<Suc n. class_match ic neg as (s ! (i + k))))"
      by (cases "i < length s") (auto dest: spec[of _ 0])
    with False show ?thesis by (subst matches_Rep) auto
  qed
qed

lemma match_at_Some_iff:
  "match_at p s i \<noteq> None \<longleftrightarrow> matches (ignoreCase p) s (body p) (i, []) \<noteq> []"
  by (auto simp: match_at_def split: list.splits)

lemma test_at:
  "j \<le> length s \<Longrightarrow> matches (ignoreCase p) s (body p) (j, []) \<noteq> [] \<Longrightarrow> test p s"
  unfolding test_iff using match_at_Some_iff[of p s j] by blast

section \<open>The two hard rejections\<close>

lemma concat_map_nonempty: "x \<in> set xs \<Longrightarrow> f x \<noteq> [] \<Longrightarrow> concat (map f xs) \<noteq> []"
  by auto

lemma seqs_nonempty:
  "x \<in> set (matches ic s r st) \<Longrightarrow> matches ic s (seqs rs) x \<noteq> [] \<Longrightarrow>
   matches ic s (seqs (r # rs)) st \<noteq> []"
  unfolding seqs_Cons by (rule concat_map_nonempty)

lemma lit_here:
  assumes "s = pre @ w @ post" "map (canon ic) w = map (\<lambda>c. canon ic (cu c)) l"
  shows "matches ic s (lit l) (length pre, cs) = [(length pre + length l, cs)]"
proof -
  from assms(2) have len: "length w = length l" by (metis length_map)
  have "take (length l) (drop (length pre) s) = w" using assms(1) len by simp
  moreover have "length pre \<le> length s" using assms(1) by simp
  ultimately show ?thesis using assms(2) by (simp add: lit_matches)
qed

lemma space_class: "class_match ic False [CSpace] c = is_space c"
  by (simp add: class_match_def)

lemma spaces_here:
  assumes "s = pre @ ws @ post" "list_all is_space ws"
  shows "(length pre + length ws, cs) \<in> set (matches ic s (star space) (length pre, cs))"
proof -
  have "length pre + length ws \<le> length s" using assms(1) by simp
  moreover have "\<forall>k<length ws. class_match ic False [CSpace] (s ! (length pre + k))"
    using assms by (simp add: space_class nth_append list_all_length)
  ultimately show ?thesis unfolding star_def space_def by (rule star_class_reaches)
qed

lemma test_doctype:
  assumes "s = pre @ js ''<!'' @ ws @ kw @ post" "list_all is_space ws"
    and "map (canon True) kw = js ''DOCTYPE''"
  shows "test re_doctype s"
proof -
  let ?i = "length pre"
  have a: "matches True s (lit ''<!'') (?i, []) = [(?i + 2, [])]"
    using lit_here[where s=s and pre=pre and w="js ''<!''" and post="ws @ kw @ post" and ic=True and l="''<!''" and cs="[]"] assms(1)
    by (simp add: js_def cu_def canon_def)
  have b: "(?i + 2 + length ws, []) \<in> set (matches True s (star space) (?i + 2, []))"
    using spaces_here[where s=s and pre="pre @ js ''<!''" and ws=ws and post="kw @ post" and ic=True and cs="[]"] assms(1,2)
    by (simp add: js_def)
  have c: "matches True s (lit ''DOCTYPE'') (?i + 2 + length ws, []) = [(?i + 2 + length ws + 7, [])]"
    using lit_here[where s=s and pre="pre @ js ''<!'' @ ws" and w=kw and post=post and ic=True and l="''DOCTYPE''" and cs="[]"] assms(1,3)
    by (simp add: js_def cu_def canon_def)
  have "matches True s (seqs [lit ''DOCTYPE'']) (?i + 2 + length ws, []) \<noteq> []"
    using c by (simp add: seqs_Cons seqs_Nil)
  with b have "matches True s (seqs [star space, lit ''DOCTYPE'']) (?i + 2, []) \<noteq> []"
    by (rule seqs_nonempty)
  then have "matches True s (seqs [lit ''<!'', star space, lit ''DOCTYPE'']) (?i, []) \<noteq> []"
    using a by (simp add: seqs_Cons[of _ _ "lit ''<!''"])
  moreover have "?i \<le> length s" using assms(1) by simp
  ultimately show ?thesis by (intro test_at[of ?i]) (simp_all add: re_doctype_def)
qed

lemma test_entity:
  assumes "s = pre @ js ''<!'' @ kw @ post" "map (canon True) kw = js ''ENTITY''"
  shows "test re_entity s"
proof -
  let ?i = "length pre"
  have "map (canon True) (js ''<!'' @ kw) = map (\<lambda>c. canon True (cu c)) ''<!ENTITY''"
    using assms(2) by (simp add: js_def cu_def canon_def)
  from lit_here[where s=s and pre=pre and w="js ''<!'' @ kw" and post=post and ic=True and l="''<!ENTITY''" and cs="[]", OF _ this] assms(1)
  have "matches True s (lit ''<!ENTITY'') (?i, []) \<noteq> []" by simp
  moreover have "?i \<le> length s" using assms(1) by simp
  ultimately show ?thesis by (intro test_at[of ?i]) (simp_all add: re_entity_def)
qed

text \<open>
  C2. A text that holds \<open><!\<close>, any run of white space and the word \<open>DOCTYPE\<close>, or
  holds \<open><!ENTITY\<close>, the letters in either case, is rejected by \<open>sanitizeSvg\<close>, whatever
  stands before and after: the result is the error, never a cleaned text.
\<close>

theorem doctype_entity_rejected:
  assumes "(s = pre @ js ''<!'' @ ws @ kw @ post \<and> list_all is_space ws \<and>
              map (canon True) kw = js ''DOCTYPE'')
         \<or> (s = pre @ js ''<!'' @ kw @ post \<and> map (canon True) kw = js ''ENTITY'')"
  shows "sanitizeSvg s = Inl (js ''Forbidden SVG: contains DOCTYPE/ENTITY declarations'')"
  using assms test_doctype[of s pre ws kw post] test_entity[of s pre kw post]
  by (auto simp: sanitizeSvg_def)

theorem doctype_entity_witness:
  "sanitizeSvg (js ''<svg><!doctype svg></svg>'')
     = Inl (js ''Forbidden SVG: contains DOCTYPE/ENTITY declarations'')"
proof -
  have "js ''<svg><!doctype svg></svg>'' = js ''<svg>'' @ js ''<!'' @ [] @ js ''doctype'' @ js '' svg></svg>''
      \<and> list_all is_space [] \<and> map (canon True) (js ''doctype'') = js ''DOCTYPE''"
    by (simp add: js_def canon_def)
  then show ?thesis using doctype_entity_rejected[of _ "js ''<svg>''" "[]" "js ''doctype''" "js '' svg></svg>''"]
    by blast
qed

section \<open>Stored names\<close>

lemma range_match:
  "atom_match ic (CRange lo hi) c \<longleftrightarrow> (\<exists>a. lo \<le> a \<and> a \<le> hi \<and> canon ic a = canon ic c)"
  by (auto simp: list_ex_iff)

lemma canon_range_lower:
  assumes "97 \<le> lo" "hi \<le> 122"
  shows "(\<exists>a. lo \<le> a \<and> a \<le> hi \<and> canon True a = canon True c)
         \<longleftrightarrow> (lo \<le> c \<and> c \<le> hi) \<or> (lo \<le> c + 32 \<and> c + 32 \<le> hi)"
proof
  assume "\<exists>a. lo \<le> a \<and> a \<le> hi \<and> canon True a = canon True c"
  then obtain a where a: "lo \<le> a" "a \<le> hi" "canon True a = canon True c" by blast
  from a(1,2) assms have "canon True a = a - 32" by (simp add: canon_def)
  with a assms show "(lo \<le> c \<and> c \<le> hi) \<or> (lo \<le> c + 32 \<and> c + 32 \<le> hi)"
    by (cases "97 \<le> c \<and> c \<le> 122") (simp_all add: canon_def, arith+)
next
  assume "(lo \<le> c \<and> c \<le> hi) \<or> (lo \<le> c + 32 \<and> c + 32 \<le> hi)"
  then show "\<exists>a. lo \<le> a \<and> a \<le> hi \<and> canon True a = canon True c"
  proof
    assume "lo \<le> c \<and> c \<le> hi"
    then show ?thesis by blast
  next
    assume h: "lo \<le> c + 32 \<and> c + 32 \<le> hi"
    with assms have "canon True (c + 32) = canon True c" by (simp add: canon_def)
    with h show ?thesis by blast
  qed
qed

lemma canon_range_plain:
  assumes "hi < 65"
  shows "(\<exists>a. lo \<le> a \<and> a \<le> hi \<and> canon ic a = canon ic c) \<longleftrightarrow> (lo \<le> c \<and> c \<le> hi)"
proof
  assume "\<exists>a. lo \<le> a \<and> a \<le> hi \<and> canon ic a = canon ic c"
  then obtain a where a: "lo \<le> a" "a \<le> hi" "canon ic a = canon ic c" by blast
  from a(2) assms have "canon ic a = a" by (simp add: canon_def)
  with a assms show "lo \<le> c \<and> c \<le> hi"
    by (cases "ic \<and> 97 \<le> c \<and> c \<le> 122") (simp_all add: canon_def, arith+)
next
  assume "lo \<le> c \<and> c \<le> hi"
  then show "\<exists>a. lo \<le> a \<and> a \<le> hi \<and> canon ic a = canon ic c" by blast
qed

lemma canon_char_plain: "a < 65 \<Longrightarrow> canon ic a = canon ic c \<longleftrightarrow> c = a"
  by (cases "ic \<and> 97 \<le> c \<and> c \<le> 122") (simp_all add: canon_def, arith+)

lemma hex_class:
  "class_match True False [CRange (cu CHR ''a'') (cu CHR ''f''), CRange (cu CHR ''0'') (cu CHR ''9''),
                           CChar (cu CHR ''-'')] c = is_hex_or_hyphen c"
proof -
  have a: "atom_match True (CRange 97 102) c \<longleftrightarrow> (97 \<le> c \<and> c \<le> 102) \<or> (65 \<le> c \<and> c \<le> 70)"
    unfolding range_match by (subst canon_range_lower) auto
  have b: "atom_match True (CRange 48 57) c \<longleftrightarrow> 48 \<le> c \<and> c \<le> 57"
    unfolding range_match by (subst canon_range_plain) auto
  have c: "atom_match True (CChar 45) c \<longleftrightarrow> c = 45"
    using canon_char_plain[of 45 True c] by simp
  show ?thesis
    unfolding class_match_def is_hex_or_hyphen_def
    by (simp add: cu_def a b c del: atom_match.simps) blast
qed

lemma seqs_Cons_fun:
  "matches ic s (seqs (r # rs)) = (\<lambda>st. concat (map (matches ic s (seqs rs)) (matches ic s r st)))"
  by (rule ext) (simp add: seqs_Cons)

lemma Bol_first: "matches ic s (seqs (Bol # rs)) (i, cs) = (if i = 0 then matches ic s (seqs rs) (0, cs) else [])"
  by (simp add: seqs_Cons)

lemma Eol_last: "matches ic s (seqs [Eol]) (i, cs) = (if i = length s then [(i, cs)] else [])"
  by (simp add: seqs_Cons seqs_Nil)

lemma upload_name_matches:
  "matches True s (body re_upload_name) (0, []) \<noteq> [] \<longleftrightarrow> upload_name_grammar s"
proof -
  let ?cls = "Cls False [CRange (cu CHR ''a'') (cu CHR ''f''), CRange (cu CHR ''0'') (cu CHR ''9''),
                          CChar (cu CHR ''-'')]"
  have stem: "matches True s (times 36 ?cls) (0, []) =
      (if 36 \<le> length s \<and> (\<forall>k<36. is_hex_or_hyphen (s ! k)) then [(36, [])] else [])"
    unfolding times_def using times_class[of 0 s True 36 True False _ "[]"]
    by (simp add: hex_class)
  have ext: "36 \<le> length s \<Longrightarrow> matches True s (lit ''.svg'') (36, []) =
      (if map (canon True) (take 4 (drop 36 s)) = js ''.SVG'' then [(40, [])] else [])"
  proof -
    have four: "Suc (Suc (Suc (Suc 0))) = 4" by simp
    assume "36 \<le> length s"
    then show ?thesis by (simp add: lit_matches js_def cu_def canon_def four)
  qed
  have all36: "36 \<le> length s \<Longrightarrow> (\<forall>k<36. is_hex_or_hyphen (s ! k)) \<longleftrightarrow> list_all is_hex_or_hyphen (take 36 s)"
    by (simp add: list_all_length)
  have tail: "length s = 40 \<Longrightarrow> take 4 (drop 36 s) = drop 36 s" by simp
  have len: "map (canon True) (take 4 (drop 36 s)) = js ''.SVG'' \<Longrightarrow> 40 \<le> length s"
  proof -
    assume "map (canon True) (take 4 (drop 36 s)) = js ''.SVG''"
    then have "length (map (canon True) (take 4 (drop 36 s))) = length (js ''.SVG'')" by simp
    then show ?thesis by (simp add: js_def)
  qed
  show ?thesis
  proof (cases "36 \<le> length s")
    case True
    have dec: "matches True s (body re_upload_name) (0, []) =
            concat (map (\<lambda>x. concat (map (matches True s (seqs [Eol])) (matches True s (lit ''.svg'') x)))
                        (matches True s (times 36 ?cls) (0, [])))"
      by (simp add: re_upload_name_def Bol_first seqs_Cons[of _ _ "times 36 ?cls"]
          seqs_Cons_fun[of _ _ "lit ''.svg''"])
    have "matches True s (body re_upload_name) (0, []) \<noteq> [] \<longleftrightarrow>
        ((\<forall>k<36. is_hex_or_hyphen (s ! k)) \<and>
         map (canon True) (take 4 (drop 36 s)) = js ''.SVG'' \<and> length s = 40)"
      unfolding dec using True by (simp add: stem ext Eol_last)
    then show ?thesis
      using True all36 tail len
      by (auto simp: upload_name_grammar_def)
  next
    case False
    then have "matches True s (body re_upload_name) (0, []) = []"
      by (simp add: re_upload_name_def Bol_first seqs_Cons[of _ _ "times 36 ?cls"] stem)
    with False show ?thesis by (simp add: upload_name_grammar_def)
  qed
qed

lemma upload_name_only_at_start:
  "0 < j \<Longrightarrow> matches True s (body re_upload_name) (j, []) = []"
  by (simp add: re_upload_name_def Bol_first)

text \<open>The pattern of \<open>isValidUploadName\<close> accepts exactly the names of the grammar.\<close>

lemma isValidUploadName_iff: "isValidUploadName s \<longleftrightarrow> upload_name_grammar s"
proof -
  have ic: "ignoreCase re_upload_name = True" by (simp add: re_upload_name_def)
  have "isValidUploadName s \<longleftrightarrow> (\<exists>j\<le>length s. matches True s (body re_upload_name) (j, []) \<noteq> [])"
    unfolding isValidUploadName_def test_iff match_at_Some_iff ic ..
  also have "\<dots> \<longleftrightarrow> matches True s (body re_upload_name) (0, []) \<noteq> []"
    using upload_name_only_at_start[of _ s] by (metis le0 neq0_conv)
  finally show ?thesis by (simp add: upload_name_matches)
qed

section \<open>The read routes\<close>

lemma grammar_stem: "upload_name_grammar s \<Longrightarrow> k < 36 \<Longrightarrow> is_hex_or_hyphen (s ! k)"
  by (simp add: upload_name_grammar_def list_all_length)

lemma grammar_ext:
  assumes "upload_name_grammar s" "36 \<le> k" "k < 40"
  shows "canon True (s ! k) = js ''.SVG'' ! (k - 36)"
proof -
  from assms(1) have len: "length s = 40" and e: "map (canon True) (drop 36 s) = js ''.SVG''"
    by (simp_all add: upload_name_grammar_def)
  have "map (canon True) (drop 36 s) ! (k - 36) = canon True (s ! k)"
    using assms(2,3) len by simp
  with e show ?thesis by simp
qed

lemma grammar_no_char:
  assumes "upload_name_grammar s" "c \<in> set s" "\<not> is_hex_or_hyphen c" "canon True c \<notin> {83, 86, 71}"
  shows "c = s ! 36 \<and> canon True c = 46"
proof -
  from assms(1) have len: "length s = 40" by (simp add: upload_name_grammar_def)
  from assms(2) obtain k where k: "k < 40" "s ! k = c" using len by (auto simp: in_set_conv_nth)
  have k36: "36 \<le> k"
  proof (rule ccontr)
    assume "\<not> 36 \<le> k"
    then have "k < 36" by simp
    from grammar_stem[OF assms(1) this] k(2) assms(3) show False by simp
  qed
  from grammar_ext[OF assms(1) k36 k(1)] k(2) have "canon True c = js ''.SVG'' ! (k - 36)" by simp
  moreover from k36 k(1) have "k = 36 \<or> k = 37 \<or> k = 38 \<or> k = 39" by arith
  ultimately show ?thesis using assms(4) k(2) by (auto simp: js_def)
qed

lemma grammar_no_slash: "upload_name_grammar s \<Longrightarrow> cu CHR ''/'' \<notin> set s"
  using grammar_no_char[of s "cu CHR ''/''"]
  by (auto simp: cu_def is_hex_or_hyphen_def canon_def)

lemma grammar_no_dotdot:
  assumes "upload_name_grammar s" shows "s \<noteq> u @ js ''..'' @ v"
proof
  assume s: "s = u @ js ''..'' @ v"
  have dot: "\<not> is_hex_or_hyphen 46" "canon True 46 \<notin> {83, 86, 71}"
    by (simp_all add: is_hex_or_hyphen_def canon_def)
  from assms have len: "length s = 40" by (simp add: upload_name_grammar_def)
  let ?i = "length u"
  from s have a: "s ! ?i = 46" and b: "s ! Suc ?i = 46" and l: "Suc ?i < length s"
    by (simp_all add: js_def nth_append)
  show False
  proof (cases "Suc ?i < 36")
    case True
    from grammar_stem[OF assms True] b dot show False by simp
  next
    case False
    with l len have "36 \<le> Suc ?i" "Suc ?i < 40" by simp_all
    from grammar_ext[OF assms this] b have e: "js ''.SVG'' ! (Suc ?i - 36) = 46" by (simp add: canon_def)
    from False l len have "Suc ?i = 36 \<or> Suc ?i = 37 \<or> Suc ?i = 38 \<or> Suc ?i = 39" by arith
    then have i35: "?i = 35" using e by (auto simp: js_def)
    from grammar_stem[OF assms, of 35] a i35 dot show False by simp
  qed
qed

lemma grammar_not_tmp: "\<not> upload_name_grammar (f @ js ''.tmp'')"
proof
  assume g: "upload_name_grammar (f @ js ''.tmp'')"
  then have len: "length (f @ js ''.tmp'') = 40" by (simp add: upload_name_grammar_def)
  then have lf: "length f = 36" by (simp add: js_def)
  from grammar_ext[OF g, of 39] have "canon True ((f @ js ''.tmp'') ! 39) = js ''.SVG'' ! 3" by simp
  with lf show False by (simp add: nth_append js_def canon_def)
qed

lemma invalid_name_rejected:
  assumes "\<not> isValidUploadName (param_name req)"
  shows "serveRaw pf fs req = \<lparr> reply = send 400 (js ''Invalid filename''), store = fs, trace = [] \<rparr>"
    and "servePreview pf fs req = \<lparr> reply = send 400 (js ''Invalid filename''), store = fs, trace = [] \<rparr>"
  using assms by (simp_all add: serveRaw_def servePreview_def)

text \<open>
  C5. On both read routes, a requested name that holds \<open>..\<close> or \<open>/\<close>, or that is not a
  36-character token of hexadecimal digits and hyphens followed by \<open>.svg\<close>, is answered
  400 "Invalid filename": no path is joined and the file system is not touched.
\<close>

theorem invalid_identifier_rejected:
  assumes "param_name req = u @ js ''..'' @ v \<or> cu CHR ''/'' \<in> set (param_name req)
           \<or> \<not> upload_name_grammar (param_name req)"
  shows "serveRaw pf fs req = \<lparr> reply = send 400 (js ''Invalid filename''), store = fs, trace = [] \<rparr>
       \<and> servePreview pf fs req = \<lparr> reply = send 400 (js ''Invalid filename''), store = fs, trace = [] \<rparr>"
proof -
  from assms have "\<not> upload_name_grammar (param_name req)"
    using grammar_no_dotdot[of "param_name req" u v] grammar_no_slash[of "param_name req"] by blast
  then have "\<not> isValidUploadName (param_name req)" by (simp add: isValidUploadName_iff)
  then show ?thesis by (simp add: invalid_name_rejected)
qed

theorem invalid_identifier_witness:
  "serveRaw (example_platform None timed_out) Map.empty
       \<lparr> param_name = js ''../../etc/passwd'', req_headers = [] \<rparr>
     = \<lparr> reply = send 400 (js ''Invalid filename''), store = Map.empty, trace = [] \<rparr>
   \<and> servePreview (example_platform None timed_out) Map.empty
       \<lparr> param_name = js ''../../etc/passwd'', req_headers = [] \<rparr>
     = \<lparr> reply = send 400 (js ''Invalid filename''), store = Map.empty, trace = [] \<rparr>"
proof -
  have "param_name \<lparr> param_name = js ''../../etc/passwd'', req_headers = [] \<rparr>
          = [] @ js ''..'' @ js ''/../etc/passwd''"
    by (simp add: js_def)
  then show ?thesis
    using invalid_identifier_rejected[of "\<lparr> param_name = js ''../../etc/passwd'', req_headers = [] \<rparr>"
        "[]" "js ''/../etc/passwd''" "example_platform None timed_out" Map.empty]
    by blast
qed

section \<open>Temporary files and response headers\<close>

lemma import_writes:
  "WriteFile path clean \<in> set (trace (importFromUrl pf fs raw)) \<Longrightarrow>
   path = path_join (UPLOAD_DIR pf) (uuidv4 pf @ js ''.svg'') @ js ''.tmp''"
  by (auto simp: importFromUrl_def Let_def split: option.splits sum.splits if_splits)

lemma sanitize_plain:
  "sanitizeSvg (js ''<svg></svg>'') = Inr (js ''<svg></svg>'')"
proof -
  let ?x = "js ''<svg></svg>''"
  have d: "\<not> test re_doctype ?x" by (simp add: regex_eval re_doctype_def)
  have e: "\<not> test re_entity ?x" by (simp add: regex_eval re_entity_def)
  have 1: "replace ?x re_script [] = ?x" by (simp add: regex_eval replace_def re_script_def)
  have 2: "replace ?x re_on [] = ?x" by (simp add: regex_eval replace_def re_on_def)
  have 3: "replace ?x re_jshref [] = ?x" by (simp add: regex_eval replace_def re_jshref_def)
  have 4: "replace ?x re_embed [] = ?x" by (simp add: regex_eval replace_def re_embed_def)
  have 5: "replace ?x re_external [] = ?x" by (simp add: regex_eval replace_def re_external_def)
  show ?thesis by (simp add: sanitizeSvg_def Let_def d e 1 2 3 4 5)
qed

lemma svg_plain: "test re_svg (js ''<svg></svg>'')"
  by (simp add: regex_eval re_svg_def)

lemma import_example:
  "importFromUrl (example_platform (Some [js ''93.184.216.34'']) (answers (js ''<svg></svg>'')))
       Map.empty example_url =
     \<lparr> reply = \<lparr> status = 201, headers = [],
                  content = Json [(js ''message'', js ''Imported''),
                                  (js ''filename'', js ''123e4567-e89b-42d3-a456-426614174000.svg'')] \<rparr>,
       store = [js ''/srv/uploads/123e4567-e89b-42d3-a456-426614174000.svg'' \<mapsto> js ''<svg></svg>''],
       trace = [Resolve (js ''a.test''), Fetch example_url,
                WriteFile (js ''/srv/uploads/123e4567-e89b-42d3-a456-426614174000.svg.tmp'') (js ''<svg></svg>''),
                Rename (js ''/srv/uploads/123e4567-e89b-42d3-a456-426614174000.svg.tmp'')
                       (js ''/srv/uploads/123e4567-e89b-42d3-a456-426614174000.svg'')] \<rparr>"
proof -
  have ips: "\<And>r. hostnameToIPs (example_platform (Some [js ''93.184.216.34'']) r) (js ''a.test'')
               = [js ''93.184.216.34'']"
    by (simp add: hostnameToIPs_def example_lookup)
  have f: "\<And>recs r. fetch (example_platform recs r) example_url = r"
    by (simp add: example_platform_def)
  have b: "\<not> 500 * 1024 < byteLength (js ''<svg></svg>'')" by (simp add: js_def)
  have u: "\<And>recs r. uuidv4 (example_platform recs r) = js ''123e4567-e89b-42d3-a456-426614174000''"
    "\<And>recs r. UPLOAD_DIR (example_platform recs r) = js ''/srv/uploads''"
    by (simp_all add: example_platform_def)
  have p: "path_join (js ''/srv/uploads'') (js ''123e4567-e89b-42d3-a456-426614174000.svg'')
           = js ''/srv/uploads/123e4567-e89b-42d3-a456-426614174000.svg''"
    "js ''/srv/uploads/123e4567-e89b-42d3-a456-426614174000.svg'' @ js ''.tmp''
           = js ''/srv/uploads/123e4567-e89b-42d3-a456-426614174000.svg.tmp''"
    "js ''123e4567-e89b-42d3-a456-426614174000'' @ js ''.svg'' = js ''123e4567-e89b-42d3-a456-426614174000.svg''"
    by (simp_all add: path_join_def js_def)
  show ?thesis
    using b
    by (simp add: importFromUrl_def Let_def example_url_trim example_url_nonempty example_isHttpUrl
        example_parse ips isPrivateIp_public f answers_def sanitize_plain svg_plain u p)
qed

text \<open>
  C9. The import writes its temporary file at the final path followed by \<open>.tmp\<close>, and
  on both read routes every name that ends in \<open>.tmp\<close> is answered 400 "Invalid
  filename" with no access to the file system.
\<close>

theorem temporary_file_not_served:
  "(WriteFile path clean \<in> set (trace (importFromUrl pf fs raw)) \<longrightarrow>
      path = path_join (UPLOAD_DIR pf) (uuidv4 pf @ js ''.svg'') @ js ''.tmp'')
   \<and> (param_name req = name @ js ''.tmp'' \<longrightarrow>
      serveRaw pf fs' req = \<lparr> reply = send 400 (js ''Invalid filename''), store = fs', trace = [] \<rparr> \<and>
      servePreview pf fs' req = \<lparr> reply = send 400 (js ''Invalid filename''), store = fs', trace = [] \<rparr>)"
proof -
  have "param_name req = name @ js ''.tmp'' \<Longrightarrow> \<not> isValidUploadName (param_name req)"
    by (simp add: isValidUploadName_iff grammar_not_tmp)
  then show ?thesis using import_writes[of path clean pf fs raw] invalid_name_rejected[of req pf fs'] by blast
qed

theorem temporary_file_witness:
  "serveRaw (example_platform (Some [js ''93.184.216.34'']) (answers (js ''<svg></svg>'')))
       (store (importFromUrl (example_platform (Some [js ''93.184.216.34'']) (answers (js ''<svg></svg>'')))
                Map.empty example_url))
       \<lparr> param_name = js ''123e4567-e89b-42d3-a456-426614174000.svg.tmp'', req_headers = [] \<rparr>
   = \<lparr> reply = send 400 (js ''Invalid filename''),
       store = [js ''/srv/uploads/123e4567-e89b-42d3-a456-426614174000.svg'' \<mapsto> js ''<svg></svg>''],
       trace = [] \<rparr>"
proof -
  let ?pf = "example_platform (Some [js ''93.184.216.34'']) (answers (js ''<svg></svg>''))"
  let ?req = "\<lparr> param_name = js ''123e4567-e89b-42d3-a456-426614174000.svg.tmp'', req_headers = [] \<rparr>"
  have n: "param_name ?req = js ''123e4567-e89b-42d3-a456-426614174000.svg'' @ js ''.tmp''"
    by (simp add: js_def)
  have w: "WriteFile (js ''/srv/uploads/123e4567-e89b-42d3-a456-426614174000.svg.tmp'') (js ''<svg></svg>'')
        \<in> set (trace (importFromUrl ?pf Map.empty example_url))"
    by (simp add: import_example)
  from temporary_file_not_served[of "js ''/srv/uploads/123e4567-e89b-42d3-a456-426614174000.svg.tmp''"
      "js ''<svg></svg>''" ?pf Map.empty example_url ?req "js ''123e4567-e89b-42d3-a456-426614174000.svg''"
      "store (importFromUrl ?pf Map.empty example_url)"] n w
  show ?thesis by (simp add: import_example)
qed

section \<open>Response headers\<close>

lemma preview_directives:
  "directives preview_policy =
     [(js ''default-src'', [quoted ''none'']), (js ''img-src'', [quoted ''self'']),
      (js ''style-src'', [quoted ''unsafe-inline''])]"
  by (simp add: directives_def preview_policy_def quoted_def squote_def js_def)

lemma preview_effective:
  "effective preview_policy name =
     (if name = js ''img-src'' then Some [quoted ''self'']
      else if name = js ''style-src'' then Some [quoted ''unsafe-inline'']
      else Some [quoted ''none''])"
  by (simp add: effective_def preview_directives) (simp add: js_def)

text \<open>
  C8. For a name that passes the validation and has a stored file, whatever headers
  the client sent: the preview carries the policy \<open>preview_policy\<close> and
  \<open>X-Content-Type-Options: nosniff\<close>, under that policy scripts and every other fetch
  directive have the source list \<open>'none'\<close>, images \<open>'self'\<close>, and styles only
  \<open>'unsafe-inline'\<close>; the raw route sets \<open>Content-Type\<close> to
  \<open>image/svg+xml; charset=utf-8\<close>.
\<close>

theorem read_headers:
  assumes "isValidUploadName (param_name req)"
    and "fs (path_join (UPLOAD_DIR pf) (param_name req)) = Some svg"
  shows "headers (reply (servePreview pf fs req))
           = [(js ''Content-Security-Policy'', preview_policy),
              (js ''X-Content-Type-Options'', js ''nosniff'')]
       \<and> effective preview_policy (js ''script-src'') = Some [quoted ''none'']
       \<and> (\<forall>name. name \<noteq> js ''img-src'' \<and> name \<noteq> js ''style-src''
              \<longrightarrow> effective preview_policy name = Some [quoted ''none''])
       \<and> effective preview_policy (js ''img-src'') = Some [quoted ''self'']
       \<and> effective preview_policy (js ''style-src'') = Some [quoted ''unsafe-inline'']
       \<and> headers (reply (serveRaw pf fs req))
           = [(js ''Content-Type'', js ''image/svg+xml; charset=utf-8'')]"
proof -
  have "headers (reply (servePreview pf fs req))
           = [(js ''Content-Security-Policy'', preview_policy),
              (js ''X-Content-Type-Options'', js ''nosniff'')]"
    using assms by (simp add: servePreview_def Let_def preview_policy_def)
  moreover have "headers (reply (serveRaw pf fs req))
           = [(js ''Content-Type'', js ''image/svg+xml; charset=utf-8'')]"
    using assms by (simp add: serveRaw_def Let_def)
  moreover have "js ''script-src'' \<noteq> js ''img-src''" "js ''script-src'' \<noteq> js ''style-src''"
    "js ''style-src'' \<noteq> js ''img-src''"
    by (simp_all add: js_def)
  ultimately show ?thesis by (simp add: preview_effective)
qed

lemma example_name_valid: "isValidUploadName (js ''123e4567-e89b-42d3-a456-426614174000.svg'')"
  by (simp add: isValidUploadName_iff upload_name_grammar_def is_hex_or_hyphen_def canon_def js_def)

theorem read_headers_witness:
  "headers (reply (servePreview (example_platform None timed_out)
       [js ''/srv/uploads/123e4567-e89b-42d3-a456-426614174000.svg'' \<mapsto> js ''<svg></svg>'']
       \<lparr> param_name = js ''123e4567-e89b-42d3-a456-426614174000.svg'',
         req_headers = [(js ''Accept'', js ''text/html'')] \<rparr>))
     = [(js ''Content-Security-Policy'', preview_policy), (js ''X-Content-Type-Options'', js ''nosniff'')]
   \<and> headers (reply (serveRaw (example_platform None timed_out)
       [js ''/srv/uploads/123e4567-e89b-42d3-a456-426614174000.svg'' \<mapsto> js ''<svg></svg>'']
       \<lparr> param_name = js ''123e4567-e89b-42d3-a456-426614174000.svg'',
         req_headers = [(js ''Accept'', js ''text/html'')] \<rparr>))
     = [(js ''Content-Type'', js ''image/svg+xml; charset=utf-8'')]"
proof -
  let ?pf = "example_platform None timed_out"
  let ?fs = "[js ''/srv/uploads/123e4567-e89b-42d3-a456-426614174000.svg'' \<mapsto> js ''<svg></svg>'']"
  let ?req = "\<lparr> param_name = js ''123e4567-e89b-42d3-a456-426614174000.svg'',
         req_headers = [(js ''Accept'', js ''text/html'')] \<rparr>"
  have 1: "isValidUploadName (param_name ?req)" by (simp add: example_name_valid)
  have 2: "?fs (path_join (UPLOAD_DIR ?pf) (param_name ?req)) = Some (js ''<svg></svg>'')"
    by (simp add: example_platform_def path_join_def js_def)
  from read_headers[where req="?req" and pf="?pf" and fs="?fs" and svg="js ''<svg></svg>''", OF 1 2]
  show ?thesis by blast
qed

section \<open>Addresses that the classifier lets through\<close>

lemma isIP_link_local: "isIP (js ''fe80::1'') = 6"
  by (simp add: regex_eval isIP_eval)

lemma isIP_link_local_high: "isIP (js ''febf::1'') = 6"
  by (simp add: regex_eval isIP_eval)

lemma isIP_mapped_loopback: "isIP (js ''::ffff:127.0.0.1'') = 6"
  by (simp add: regex_eval isIP_eval)

lemma isIP_unique_local: "isIP (js ''fd00::1'') = 6"
  by (simp add: regex_eval isIP_eval)

lemma isPrivateIp_link_local: "isPrivateIp (js ''fe80::1'')"
  by (simp add: isPrivateIp_def isIP_link_local) (simp add: startsWith_def js_def)

lemma isPrivateIp_link_local_high: "\<not> isPrivateIp (js ''febf::1'')"
  by (simp add: isPrivateIp_def isIP_link_local_high) (simp add: startsWith_def regex_eval re_172_def)

lemma isPrivateIp_mapped_loopback: "\<not> isPrivateIp (js ''::ffff:127.0.0.1'')"
  by (simp add: isPrivateIp_def isIP_mapped_loopback) (simp add: startsWith_def regex_eval re_172_def)

lemma isPrivateIp_unique_local: "\<not> isPrivateIp (js ''fd00::1'')"
  by (simp add: isPrivateIp_def isIP_unique_local) (simp add: startsWith_def regex_eval re_172_def)

lemma import_fetches:
  assumes "ips \<noteq> []" "\<not> list_ex isPrivateIp ips"
  shows "trace (importFromUrl (example_platform (Some ips) timed_out) Map.empty example_url)
           = [Resolve (js ''a.test''), Fetch example_url]"
proof -
  have "hostnameToIPs (example_platform (Some ips) timed_out) (js ''a.test'') = ips"
    by (simp add: hostnameToIPs_def example_lookup)
  then show ?thesis
    using assms
    by (simp add: importFromUrl_def Let_def example_url_trim example_url_nonempty example_isHttpUrl
        example_parse) (simp add: example_platform_def timed_out_def)
qed

text \<open>
  C1. The claim fails on the code. The addresses \<open>febf::1\<close> (link-local, in
  \<open>fe80::/10\<close>), \<open>::ffff:127.0.0.1\<close> (the loopback address, IPv4-mapped) and \<open>fd00::1\<close>
  (private, unique local) are address literals that \<open>isPrivateIp\<close> answers "not
  private", although it answers "private" for \<open>fe80::1\<close> and \<open>127.0.0.1\<close>; an import
  whose host resolves to a public address and one of them goes on to the fetch.
\<close>

theorem private_addresses_fetched:
  "isIP (js ''febf::1'') = 6 \<and> \<not> isPrivateIp (js ''febf::1'') \<and> isPrivateIp (js ''fe80::1'')
   \<and> isIP (js ''::ffff:127.0.0.1'') = 6 \<and> \<not> isPrivateIp (js ''::ffff:127.0.0.1'')
   \<and> isPrivateIp (js ''127.0.0.1'')
   \<and> isIP (js ''fd00::1'') = 6 \<and> \<not> isPrivateIp (js ''fd00::1'')
   \<and> trace (importFromUrl (example_platform (Some [js ''93.184.216.34'', js ''febf::1'']) timed_out)
                Map.empty example_url) = [Resolve (js ''a.test''), Fetch example_url]
   \<and> trace (importFromUrl (example_platform (Some [js ''::ffff:127.0.0.1'']) timed_out)
                Map.empty example_url) = [Resolve (js ''a.test''), Fetch example_url]
   \<and> trace (importFromUrl (example_platform (Some [js ''fd00::1'']) timed_out)
                Map.empty example_url) = [Resolve (js ''a.test''), Fetch example_url]"
proof -
  have a: "trace (importFromUrl (example_platform (Some [js ''93.184.216.34'', js ''febf::1'']) timed_out)
                Map.empty example_url) = [Resolve (js ''a.test''), Fetch example_url]"
    by (rule import_fetches) (simp_all add: isPrivateIp_public isPrivateIp_link_local_high)
  have b: "trace (importFromUrl (example_platform (Some [js ''::ffff:127.0.0.1'']) timed_out)
                Map.empty example_url) = [Resolve (js ''a.test''), Fetch example_url]"
    by (rule import_fetches) (simp_all add: isPrivateIp_mapped_loopback)
  have c: "trace (importFromUrl (example_platform (Some [js ''fd00::1'']) timed_out)
                Map.empty example_url) = [Resolve (js ''a.test''), Fetch example_url]"
    by (rule import_fetches) (simp_all add: isPrivateIp_unique_local)
  show ?thesis
    using a b c isIP_link_local_high isPrivateIp_link_local_high isPrivateIp_link_local
      isIP_mapped_loopback isPrivateIp_mapped_loopback isPrivateIp_loopback
      isIP_unique_local isPrivateIp_unique_local
    by simp
qed

section \<open>Texts that the sanitizer lets through\<close>

lemma import_stores:
  assumes "sanitizeSvg doc = Inr clean" "test re_svg clean" "byteLength doc \<le> 512000"
  shows "importFromUrl (example_platform (Some [js ''93.184.216.34'']) (answers doc)) Map.empty example_url =
     \<lparr> reply = \<lparr> status = 201, headers = [],
                  content = Json [(js ''message'', js ''Imported''),
                                  (js ''filename'', js ''123e4567-e89b-42d3-a456-426614174000.svg'')] \<rparr>,
       store = [js ''/srv/uploads/123e4567-e89b-42d3-a456-426614174000.svg'' \<mapsto> clean],
       trace = [Resolve (js ''a.test''), Fetch example_url,
                WriteFile (js ''/srv/uploads/123e4567-e89b-42d3-a456-426614174000.svg.tmp'') clean,
                Rename (js ''/srv/uploads/123e4567-e89b-42d3-a456-426614174000.svg.tmp'')
                       (js ''/srv/uploads/123e4567-e89b-42d3-a456-426614174000.svg'')] \<rparr>"
proof -
  have ips: "\<And>r. hostnameToIPs (example_platform (Some [js ''93.184.216.34'']) r) (js ''a.test'')
               = [js ''93.184.216.34'']"
    by (simp add: hostnameToIPs_def example_lookup)
  have f: "\<And>recs r. fetch (example_platform recs r) example_url = r"
    by (simp add: example_platform_def)
  have u: "\<And>recs r. uuidv4 (example_platform recs r) = js ''123e4567-e89b-42d3-a456-426614174000''"
    "\<And>recs r. UPLOAD_DIR (example_platform recs r) = js ''/srv/uploads''"
    by (simp_all add: example_platform_def)
  have p: "path_join (js ''/srv/uploads'') (js ''123e4567-e89b-42d3-a456-426614174000.svg'')
           = js ''/srv/uploads/123e4567-e89b-42d3-a456-426614174000.svg''"
    "js ''/srv/uploads/123e4567-e89b-42d3-a456-426614174000.svg'' @ js ''.tmp''
           = js ''/srv/uploads/123e4567-e89b-42d3-a456-426614174000.svg.tmp''"
    "js ''123e4567-e89b-42d3-a456-426614174000'' @ js ''.svg'' = js ''123e4567-e89b-42d3-a456-426614174000.svg''"
    by (simp_all add: path_join_def js_def)
  show ?thesis
    using assms
    by (simp add: importFromUrl_def Let_def example_url_trim example_url_nonempty example_isHttpUrl
        example_parse ips isPrivateIp_public f answers_def u p)
qed

text \<open>
  C3. The claim fails on the code. The text below holds no \<open>DOCTYPE\<close> or \<open>ENTITY\<close>
  declaration and is accepted; the pass for script blocks deletes the inner block, the
  text on both sides of it joins into a script block, and no pass scans it again. The
  cleaned text, which the import stores, matches the pattern for script blocks.
\<close>

theorem script_block_survives:
  "sanitizeSvg (js ''<svg><scr<script></script>ipt>alert(1)</script></svg>'')
     = Inr (js ''<svg><script>alert(1)</script></svg>'')
   \<and> test re_script (js ''<svg><script>alert(1)</script></svg>'')
   \<and> store (importFromUrl (example_platform (Some [js ''93.184.216.34''])
                  (answers (js ''<svg><scr<script></script>ipt>alert(1)</script></svg>'')))
                Map.empty example_url)
       = [js ''/srv/uploads/123e4567-e89b-42d3-a456-426614174000.svg''
            \<mapsto> js ''<svg><script>alert(1)</script></svg>'']"
proof -
  let ?x = "js ''<svg><scr<script></script>ipt>alert(1)</script></svg>''"
  let ?y = "js ''<svg><script>alert(1)</script></svg>''"
  have d: "\<not> test re_doctype ?x" by (simp add: regex_eval re_doctype_def)
  have e: "\<not> test re_entity ?x" by (simp add: regex_eval re_entity_def)
  have 1: "replace ?x re_script [] = ?y" by (simp add: regex_eval replace_def re_script_def)
  have 2: "replace ?y re_on [] = ?y" by (simp add: regex_eval replace_def re_on_def)
  have 3: "replace ?y re_jshref [] = ?y" by (simp add: regex_eval replace_def re_jshref_def)
  have 4: "replace ?y re_embed [] = ?y" by (simp add: regex_eval replace_def re_embed_def)
  have 5: "replace ?y re_external [] = ?y" by (simp add: regex_eval replace_def re_external_def)
  have x: "sanitizeSvg ?x = Inr ?y" by (simp add: sanitizeSvg_def Let_def d e 1 2 3 4 5)
  have t: "test re_script ?y" by (simp add: regex_eval re_script_def)
  have g: "test re_svg ?y" by (simp add: regex_eval re_svg_def)
  have b: "byteLength ?x \<le> 512000" by (simp add: js_def)
  from import_stores[OF x g b] x t show ?thesis by simp
qed

theorem script_block_stored:
  "store (importFromUrl (example_platform (Some [js ''93.184.216.34''])
                  (answers (js ''<svg><scr<script></script>ipt>alert(1)</script></svg>'')))
                Map.empty example_url)
       = [js ''/srv/uploads/123e4567-e89b-42d3-a456-426614174000.svg''
            \<mapsto> js ''<svg><script>alert(1)</script></svg>'']"
  by (rule conjunct2[OF conjunct2[OF script_block_survives]])

text \<open>
  C6. The claim fails on the code. The pattern of the last pass has no alternative for
  a value without quotes, which the patterns for event handlers and for \<open>javascript:\<close>
  references have: the pass for \<open>javascript:\<close> references deletes \<open>href=javascript:x\<close>,
  but \<open>sanitizeSvg\<close> returns the text below as it is, with its reference to
  \<open>http://c/x.png\<close>, and the import stores it.
\<close>

theorem unquoted_external_survives:
  "sanitizeSvg (js ''<svg><image href=http://c/x.png /></svg>'')
     = Inr (js ''<svg><image href=http://c/x.png /></svg>'')
   \<and> js ''<svg><image href=http://c/x.png /></svg>''
       = js ''<svg><image '' @ js ''href=http://c/x.png'' @ js '' /></svg>''
   \<and> replace (js ''<svg><a href=javascript:x /></svg>'') re_jshref [] = js ''<svg><a  /></svg>''
   \<and> store (importFromUrl (example_platform (Some [js ''93.184.216.34''])
                  (answers (js ''<svg><image href=http://c/x.png /></svg>'')))
                Map.empty example_url)
       = [js ''/srv/uploads/123e4567-e89b-42d3-a456-426614174000.svg''
            \<mapsto> js ''<svg><image href=http://c/x.png /></svg>'']"
proof -
  let ?x = "js ''<svg><image href=http://c/x.png /></svg>''"
  have d: "\<not> test re_doctype ?x" by (simp add: regex_eval re_doctype_def)
  have e: "\<not> test re_entity ?x" by (simp add: regex_eval re_entity_def)
  have 1: "replace ?x re_script [] = ?x" by (simp add: regex_eval replace_def re_script_def)
  have 2: "replace ?x re_on [] = ?x" by (simp add: regex_eval replace_def re_on_def)
  have 3: "replace ?x re_jshref [] = ?x" by (simp add: regex_eval replace_def re_jshref_def)
  have 4: "replace ?x re_embed [] = ?x" by (simp add: regex_eval replace_def re_embed_def)
  have 5: "replace ?x re_external [] = ?x" by (simp add: regex_eval replace_def re_external_def)
  have x: "sanitizeSvg ?x = Inr ?x" by (simp add: sanitizeSvg_def Let_def d e 1 2 3 4 5)
  have c: "?x = js ''<svg><image '' @ js ''href=http://c/x.png'' @ js '' /></svg>''" by (simp add: js_def)
  have j: "replace (js ''<svg><a href=javascript:x /></svg>'') re_jshref [] = js ''<svg><a  /></svg>''"
    by (simp add: regex_eval replace_def re_jshref_def)
  have g: "test re_svg ?x" by (simp add: regex_eval re_svg_def)
  have b: "byteLength ?x \<le> 512000" by (simp add: js_def)
  from import_stores[OF x g b] x c j show ?thesis by simp
qed

theorem unquoted_external_stored:
  "store (importFromUrl (example_platform (Some [js ''93.184.216.34''])
                  (answers (js ''<svg><image href=http://c/x.png /></svg>'')))
                Map.empty example_url)
       = [js ''/srv/uploads/123e4567-e89b-42d3-a456-426614174000.svg''
            \<mapsto> js ''<svg><image href=http://c/x.png /></svg>'']"
  by (rule conjunct2[OF conjunct2[OF conjunct2[OF unquoted_external_survives]]])

end
